theory Spec2Isabelle
  imports Main "HOL-Library.Sublist"
begin

section \<open>JavaScript values used by \<open>src/emailToEvents.ts\<close>\<close>

text \<open>
  A JavaScript string is its sequence of UTF-16 code units. A \<open>Date\<close> is its time value,
  the number of milliseconds since the epoch (the model holds valid dates only: an
  Invalid Date, whose time value is NaN, is outside of it).
\<close>

type_synonym jsstring = "nat list"

definition js :: "string \<Rightarrow> jsstring" where
  "js s = map of_char s"

type_synonym jsdate = int

text \<open>
  What the code takes from its host and from modules that are not part of the sources:
  the built-in \<open>String.prototype.toLowerCase\<close>, the local time zone adjustment of the
  process (ECMAScript's LocalTZA, in milliseconds, at a given time value) and the clock
  read by \<open>new Date()\<close>.
\<close>

record host =
  toLowerCase :: "jsstring \<Rightarrow> jsstring"
  localTZA :: "jsdate \<Rightarrow> int"
  clock :: jsdate

text \<open>ECMAScript's date arithmetic: \<open>getHours\<close>, \<open>getMinutes\<close> and \<open>getDay\<close> read the
  local time, \<open>getTime\<close> the time value itself.\<close>

definition localTime :: "host \<Rightarrow> jsdate \<Rightarrow> int" where
  "localTime h t = t + localTZA h t"

definition getHours :: "host \<Rightarrow> jsdate \<Rightarrow> int" where
  "getHours h t = (localTime h t div 3600000) mod 24"

definition getMinutes :: "host \<Rightarrow> jsdate \<Rightarrow> int" where
  "getMinutes h t = (localTime h t div 60000) mod 60"

definition getDay :: "host \<Rightarrow> jsdate \<Rightarrow> int" where
  "getDay h t = (localTime h t div 86400000 + 4) mod 7"

definition getTime :: "jsdate \<Rightarrow> int" where
  "getTime t = t"

text \<open>\<open>s.includes(sub)\<close>: \<open>sub\<close> occurs in \<open>s\<close> at some position.\<close>

fun includes_str :: "jsstring \<Rightarrow> jsstring \<Rightarrow> bool" where
  "includes_str [] sub = (sub = [])"
| "includes_str (c # s) sub = (prefix sub (c # s) \<or> includes_str s sub)"

datatype error = TypeError | RecordNotFound | Rejected

section \<open>\<open>mergeEvents\<close>\<close>

text \<open>The argument type of \<open>mergeEvents\<close>:
  \<open>{ date: Date; location: string; fromEmail: null | { receivedAt: Date } }\<close>.\<close>

record mergeable =
  ev_date :: jsdate
  ev_location :: jsstring
  ev_fromEmail :: "jsdate option"

datatype merge_result = Unmergable | Former | Latter

definition isAllDay :: "host \<Rightarrow> jsdate \<Rightarrow> bool" where
  "isAllDay h d = (getHours h d = 0 \<and> getMinutes h d = 0)"

definition sameDate :: "host \<Rightarrow> mergeable \<Rightarrow> mergeable \<Rightarrow> bool" where
  "sameDate h event1 event2 =
     (((isAllDay h (ev_date event1) \<or> isAllDay h (ev_date event2)) \<and>
        getDay h (ev_date event1) = getDay h (ev_date event2)) \<or>
      getTime (ev_date event1) = getTime (ev_date event2))"

definition sameLocation :: "host \<Rightarrow> mergeable \<Rightarrow> mergeable \<Rightarrow> bool" where
  "sameLocation h event1 event2 =
     (toLowerCase h (ev_location event1) = js ''unknown'' \<or>
      toLowerCase h (ev_location event2) = js ''unknown'' \<or>
      includes_str (toLowerCase h (ev_location event1)) (toLowerCase h (ev_location event2)) \<or>
      includes_str (toLowerCase h (ev_location event2)) (toLowerCase h (ev_location event1)))"

text \<open>The last line dereferences \<open>fromEmail!\<close> of both events (the first one first): on
  \<open>null\<close> the property access throws a TypeError.\<close>

definition mergeEvents ::
  "host \<Rightarrow> mergeable \<Rightarrow> mergeable \<Rightarrow> error + merge_result" where
  "mergeEvents h event1 event2 =
     (if \<not> sameDate h event1 event2 then Inr Unmergable
      else if \<not> sameLocation h event1 event2 then Inr Unmergable
      else (case ev_fromEmail event1 of
              None \<Rightarrow> Inl TypeError
            | Some receivedAt1 \<Rightarrow>
                (case ev_fromEmail event2 of
                   None \<Rightarrow> Inl TypeError
                 | Some receivedAt2 \<Rightarrow>
                     Inr (if receivedAt1 \<le> receivedAt2 then Latter else Former))))"

section \<open>\<open>isDormspam\<close>\<close>

text \<open>
  \<open>isDormspamRegex\<close> is built from the keywords: in each keyword every run of spaces is
  replaced by \<open>\s+\<close>, the keywords are wrapped in groups and joined by \<open>|\<close>, and the
  flags are \<open>u\<close> and \<open>i\<close>. The keywords hold no character that the regular expression
  syntax reads specially, so a compiled keyword is a sequence of literal characters and
  \<open>\s+\<close> atoms, and the whole expression is the list of these alternatives.
\<close>

datatype atom = Chr nat | Spaces

text \<open>The characters \<open>\s\<close> matches: ECMAScript's WhiteSpace and LineTerminator.\<close>

definition isWhiteSpace :: "nat \<Rightarrow> bool" where
  "isWhiteSpace c =
     (c \<in> {0x9, 0xA, 0xB, 0xC, 0xD, 0x20, 0xA0, 0x1680, 0x2028, 0x2029, 0x202F, 0x205F,
            0x3000, 0xFEFF} \<or> (0x2000 \<le> c \<and> c \<le> 0x200A))"

text \<open>
  With the flags \<open>ui\<close> two characters match when their simple case foldings are equal.
  The keywords are lower-case ASCII, and the characters that fold to a lower-case ASCII
  letter are the letter, its upper-case form, the Kelvin sign (to \<open>k\<close>) and the long s
  (to \<open>s\<close>); \<open>canonicalize\<close> is the simple case folding restricted to these, which is
  all that a comparison with a keyword's character can see.
\<close>

definition canonicalize :: "nat \<Rightarrow> nat" where
  "canonicalize c =
     (if 0x41 \<le> c \<and> c \<le> 0x5A then c + 0x20
      else if c = 0x212A then 0x6B
      else if c = 0x17F then 0x73
      else c)"

text \<open>\<open>keyword.replaceAll(/ +/g, "\\s+")\<close>, read as a regular expression.\<close>

function compile_keyword :: "jsstring \<Rightarrow> atom list" where
  "compile_keyword [] = []"
| "compile_keyword (c # cs) =
     (if c = 0x20 then Spaces # compile_keyword (dropWhile (\<lambda>d. d = 0x20) cs)
      else Chr c # compile_keyword cs)"
  by pat_completeness auto
termination
  by (relation "measure length") (auto simp: le_imp_less_Suc length_dropWhile_le)

text \<open>A backtracking match of one alternative at the start of the text; \<open>\s+\<close> is greedy,
  so the longer run of white space is tried first.\<close>

fun matchesAt :: "atom list \<Rightarrow> jsstring \<Rightarrow> bool" where
  "matchesAt [] t = True"
| "matchesAt (Chr c # r) [] = False"
| "matchesAt (Chr c # r) (x # t) = (canonicalize x = canonicalize c \<and> matchesAt r t)"
| "matchesAt (Spaces # r) [] = False"
| "matchesAt (Spaces # r) (x # t) =
     (isWhiteSpace x \<and> (matchesAt (Spaces # r) t \<or> matchesAt r t))"

text \<open>\<open>regex.test(text)\<close> for an expression without the flags \<open>g\<close> and \<open>y\<close>: some
  alternative matches at some position; the call keeps no state.\<close>

fun regex_test :: "atom list list \<Rightarrow> jsstring \<Rightarrow> bool" where
  "regex_test alts [] = list_ex (\<lambda>r. matchesAt r []) alts"
| "regex_test alts (x # t) = (list_ex (\<lambda>r. matchesAt r (x # t)) alts \<or> regex_test alts t)"

definition dormspamKeywords :: "jsstring list" where
  "dormspamKeywords =
     [js ''bcc'd to all dorms'',
      js ''bcc's to all dorms'',
      js ''bcc'd to dorms'',
      js ''bcc'ed dorms'',
      js ''bcc'ed to dorms'',
      js ''bcc to dorms'',
      js ''bcc'd to everyone'',
      js ''bcc dormlists'',
      js ''bcc to dormlists'',
      js ''for bc-talk'']"

definition isDormspamRegex :: "atom list list" where
  "isDormspamRegex = map compile_keyword dormspamKeywords"

definition isDormspam :: "jsstring \<Rightarrow> bool" where
  "isDormspam t = regex_test isDormspamRegex t"

section \<open>The persistent store\<close>

text \<open>
  The tables the code reaches through the Prisma client, as lists of rows. A query is one
  atomic step on the store: it returns its result, or the error the client raises, and
  the store after it.
\<close>

record email =
  e_messageId :: jsstring
  e_scrapedBy :: jsstring
  e_uid :: nat
  e_senderEmail :: jsstring
  e_subject :: jsstring
  e_body :: jsstring
  e_receivedAt :: jsdate
  e_modelName :: jsstring
  e_inReplyToId :: "jsstring option"

record sender =
  s_email :: jsstring
  s_name :: jsstring

record ignored =
  i_scrapedBy :: jsstring
  i_uid :: nat
  i_receivedAt :: jsdate

datatype dataSource = DORMSPAM | OTHER_SOURCE

text \<open>The columns \<open>newEventData\<close> sets, and an event row: these columns and its id.\<close>

record eventData =
  d_date :: jsdate
  d_source :: dataSource
  d_title :: jsstring
  d_location :: jsstring
  d_organizer :: jsstring
  d_duration :: int
  d_fromEmailId :: "jsstring option"
  d_text :: jsstring

record event = eventData +
  evt_id :: nat

section \<open>The embedding index and the task registry\<close>

text \<open>
  An entry of the embedding index: \<open>{ embeddings, metadata }\<close>. The metadata is a
  JavaScript object that the code reads from the index and then mutates
  (\<open>metadata.eventIds = ...\<close>), so an entry holds the object's address and the event ids
  live in a heap of metadata objects.
\<close>

type_synonym vector = "int list"

record embedding =
  embeddings :: vector
  metadata :: nat

text \<open>What one invocation of \<open>processMail\<close> does to the world outside of it, in program
  order: its writes to the store and its operations on the one-shot handles.\<close>

datatype effect =
    Registered jsstring nat
  | Awaited nat
  | Resolved nat
  | IgnoredUpsert jsstring nat
  | EmailUpsert jsstring
  | EmailUpdate jsstring
  | EventDeleteMany jsstring
  | EventCreate nat
  | EventUpdate nat

text \<open>
  The world an invocation runs in: the store's tables, the embedding index with its
  metadata objects, the registry \<open>processingTasks\<close> of the run (a handle is the identity
  of a \<open>Deferred\<close>) with the set of resolved handles, the store requests that were
  issued and not awaited, and, private to the invocation, the count of its suspensions
  and the trace of its effects.
\<close>

record world =
  emails :: "email list"
  senders :: "sender list"
  events :: "event list"
  nextEventId :: nat
  ignoredEmails :: "ignored list"
  embeddingDB :: "jsstring \<rightharpoonup> embedding"
  metaHeap :: "nat \<rightharpoonup> nat list"
  nextObject :: nat
  processingTasks :: "jsstring \<rightharpoonup> nat"
  resolved :: "nat set"
  nextDeferred :: nat
  inflight :: "(jsstring \<times> jsstring) list"
  ticks :: nat
  trace :: "effect list"

type_synonym 'a query = "world \<Rightarrow> (error + 'a) \<times> world"

definition emit :: "effect \<Rightarrow> world \<Rightarrow> world" where
  "emit x w = w\<lparr>trace := trace w @ [x]\<rparr>"

subsection \<open>Queries on messages and tombstones\<close>

definition findEmail :: "jsstring \<Rightarrow> world \<Rightarrow> email option" where
  "findEmail mid w = find (\<lambda>e. e_messageId e = mid) (emails w)"

definition email_findUnique :: "jsstring \<Rightarrow> email option query" where
  "email_findUnique mid w = (Inr (findEmail mid w), w)"

text \<open>\<open>prisma.ignoredEmail.upsert\<close> with \<open>update: {}\<close>: the row is created unless one with
  this scraper and uid exists.\<close>

definition ignoredEmail_upsert :: "jsstring \<Rightarrow> nat \<Rightarrow> jsdate \<Rightarrow> unit query" where
  "ignoredEmail_upsert sb u rcv w =
     (Inr (),
      emit (IgnoredUpsert sb u)
        (if list_ex (\<lambda>r. i_scrapedBy r = sb \<and> i_uid r = u) (ignoredEmails w) then w
         else w\<lparr>ignoredEmails :=
                  ignoredEmails w @ [\<lparr>i_scrapedBy = sb, i_uid = u, i_receivedAt = rcv\<rparr>]\<rparr>))"

text \<open>\<open>prisma.email.upsert\<close>: an existing row gets the new \<open>modelName\<close>; otherwise the row
  is created, its sender connected or created, and its parent connected (the client
  raises when the row to connect does not exist).\<close>

definition email_upsert ::
  "jsstring \<Rightarrow> jsstring \<Rightarrow> nat \<Rightarrow> jsstring \<Rightarrow> jsstring \<Rightarrow> jsstring \<Rightarrow> jsstring \<Rightarrow> jsdate \<Rightarrow>
   jsstring \<Rightarrow> jsstring option \<Rightarrow> unit query" where
  "email_upsert mid sb u addr nm subj html rcv mn inReplyTo w =
     (case findEmail mid w of
        Some _ \<Rightarrow>
          (Inr (),
           emit (EmailUpsert mid)
             (w\<lparr>emails :=
                  map (\<lambda>e. if e_messageId e = mid then e\<lparr>e_modelName := mn\<rparr> else e)
                    (emails w)\<rparr>))
      | None \<Rightarrow>
          if (case inReplyTo of None \<Rightarrow> False | Some parent \<Rightarrow> findEmail parent w = None)
          then (Inl RecordNotFound, w)
          else
            (Inr (),
             emit (EmailUpsert mid)
               (w\<lparr>emails :=
                    emails w @
                      [\<lparr>e_messageId = mid, e_scrapedBy = sb, e_uid = u, e_senderEmail = addr,
                        e_subject = subj, e_body = html, e_receivedAt = rcv,
                        e_modelName = mn, e_inReplyToId = inReplyTo\<rparr>],
                  senders :=
                    (if list_ex (\<lambda>s. s_email s = addr) (senders w) then senders w
                     else senders w @ [\<lparr>s_email = addr, s_name = nm\<rparr>])\<rparr>)))"

text \<open>\<open>prisma.email.update\<close> of \<open>modelName\<close>, as a change of the table and as the query.\<close>

definition setModelName :: "jsstring \<Rightarrow> jsstring \<Rightarrow> world \<Rightarrow> world" where
  "setModelName mid mn w =
     w\<lparr>emails := map (\<lambda>e. if e_messageId e = mid then e\<lparr>e_modelName := mn\<rparr> else e) (emails w)\<rparr>"

definition email_update :: "jsstring \<Rightarrow> jsstring \<Rightarrow> unit query" where
  "email_update mid mn w =
     (case findEmail mid w of
        None \<Rightarrow> (Inl RecordNotFound, w)
      | Some _ \<Rightarrow> (Inr (), emit (EmailUpdate mid) (setModelName mid mn w)))"

subsection \<open>Queries on events\<close>

definition findEvent :: "nat \<Rightarrow> world \<Rightarrow> event option" where
  "findEvent i w = find (\<lambda>ev. evt_id ev = i) (events w)"

text \<open>The owning message of an event, as \<open>include: { fromEmail: ... }\<close> joins it.\<close>

definition fromEmail :: "event \<Rightarrow> world \<Rightarrow> email option" where
  "fromEmail ev w = (case d_fromEmailId ev of None \<Rightarrow> None | Some mid \<Rightarrow> findEmail mid w)"

text \<open>\<open>prisma.event.findUnique\<close> by id, with \<open>fromEmail.receivedAt\<close>.\<close>

definition event_findUnique :: "nat \<Rightarrow> (event \<times> jsdate option) option query" where
  "event_findUnique i w =
     (Inr (map_option (\<lambda>ev. (ev, map_option e_receivedAt (fromEmail ev w))) (findEvent i w)), w)"

text \<open>\<open>prisma.event.findFirst\<close> by owning message, with \<open>fromEmail.modelName\<close>.\<close>

definition event_findFirst :: "jsstring \<Rightarrow> (event \<times> jsstring option) option query" where
  "event_findFirst root w =
     (Inr (map_option (\<lambda>ev. (ev, map_option e_modelName (fromEmail ev w)))
             (find (\<lambda>ev. d_fromEmailId ev = Some root) (events w))), w)"

definition event_deleteMany :: "jsstring \<Rightarrow> unit query" where
  "event_deleteMany root w =
     (Inr (),
      emit (EventDeleteMany root)
        (w\<lparr>events := filter (\<lambda>ev. d_fromEmailId ev \<noteq> Some root) (events w)\<rparr>))"

definition row :: "nat \<Rightarrow> eventData \<Rightarrow> event" where
  "row i d =
     \<lparr>d_date = d_date d, d_source = d_source d, d_title = d_title d,
      d_location = d_location d, d_organizer = d_organizer d, d_duration = d_duration d,
      d_fromEmailId = d_fromEmailId d, d_text = d_text d, evt_id = i\<rparr>"

text \<open>The message that \<open>fromEmail: { connect: ... }\<close> names must exist.\<close>

definition connectable :: "eventData \<Rightarrow> world \<Rightarrow> bool" where
  "connectable d w =
     (case d_fromEmailId d of None \<Rightarrow> True | Some mid \<Rightarrow> findEmail mid w \<noteq> None)"

text \<open>\<open>prisma.event.update\<close>: the row keeps its id and takes the data.\<close>

definition event_update :: "nat \<Rightarrow> eventData \<Rightarrow> unit query" where
  "event_update i d w =
     (if findEvent i w = None \<or> \<not> connectable d w then (Inl RecordNotFound, w)
      else (Inr (),
            emit (EventUpdate i)
              (w\<lparr>events := map (\<lambda>ev. if evt_id ev = i then row i d else ev) (events w)\<rparr>)))"

text \<open>\<open>prisma.event.create\<close>: the new row gets the next id of the table.\<close>

definition event_create :: "eventData \<Rightarrow> event query" where
  "event_create d w =
     (if \<not> connectable d w then (Inl RecordNotFound, w)
      else (Inr (row (nextEventId w) d),
            emit (EventCreate (nextEventId w))
              (w\<lparr>events := events w @ [row (nextEventId w) d],
                 nextEventId := Suc (nextEventId w)\<rparr>)))"

subsection \<open>The embedding index\<close>

text \<open>
  Modelled from the spec: \<open>vectordb.js\<close> is not among the sources. The spec gives the
  Embedding Index as a map from a label to a vector and its metadata (the event ids of
  the label), with \<open>upsert(label, vector, metadata)\<close>, \<open>get(label)\<close> returning the entry or
  missing, and \<open>delete(label)\<close>. \<open>upsertEmbedding\<close> stores the vector and the metadata
  object it is given (a fresh object at each call site) under the label.
\<close>

definition upsertEmbedding :: "jsstring \<Rightarrow> vector \<Rightarrow> nat list \<Rightarrow> world \<Rightarrow> world" where
  "upsertEmbedding label v ids w =
     w\<lparr>embeddingDB := (embeddingDB w)(label \<mapsto> \<lparr>embeddings = v, metadata = nextObject w\<rparr>),
       metaHeap := (metaHeap w)(nextObject w \<mapsto> ids),
       nextObject := Suc (nextObject w)\<rparr>"

definition getEmbedding :: "jsstring \<Rightarrow> world \<Rightarrow> embedding option" where
  "getEmbedding label w = embeddingDB w label"

definition deleteEmbedding :: "jsstring \<Rightarrow> world \<Rightarrow> world" where
  "deleteEmbedding label w = w\<lparr>embeddingDB := (embeddingDB w)(label := None)\<rparr>"

text \<open>Reading and assigning \<open>metadata.eventIds\<close> of a metadata object.\<close>

definition eventIdsOf :: "nat \<Rightarrow> world \<Rightarrow> nat list" where
  "eventIdsOf m w = (case metaHeap w m of None \<Rightarrow> [] | Some ids \<Rightarrow> ids)"

definition setEventIds :: "nat \<Rightarrow> nat list \<Rightarrow> world \<Rightarrow> world" where
  "setEventIds m ids w = w\<lparr>metaHeap := (metaHeap w)(m \<mapsto> ids)\<rparr>"

text \<open>The event ids the index holds, over all its labels.\<close>

definition indexed :: "world \<Rightarrow> nat \<Rightarrow> bool" where
  "indexed w i =
     (\<exists>label e. embeddingDB w label = Some e \<and> i \<in> set (eventIdsOf (metadata e) w))"

section \<open>What the code imports\<close>

text \<open>
  The modules \<open>llm/emailToEvents.js\<close>, \<open>llm/utils.js\<close>, \<open>vectordb.js\<close> and
  \<open>html-to-text\<close> are not among the sources; the functions \<open>processMail\<close> calls from them
  are parameters of the model. The extraction returns a status or its events.
\<close>

record candidate =
  c_title :: jsstring
  c_dateTime :: jsdate
  c_location :: jsstring
  c_organizer :: jsstring
  c_duration :: int

datatype extraction =
    ErrorMalformedJson
  | ErrorOpenaiNetwork
  | RejectedByGpt3
  | RejectedByGpt4
  | Admitted "candidate list"

record deps =
  CURRENT_MODEL_NAME :: jsstring
  convert :: "jsstring \<Rightarrow> jsstring"
  removeArtifacts :: "jsstring \<Rightarrow> jsstring"
  extractFromEmail :: "jsstring \<Rightarrow> jsstring \<Rightarrow> jsdate \<Rightarrow> extraction"
  createEmbedding :: "jsstring \<Rightarrow> vector"
  getKNearestNeighbors :: "(jsstring \<rightharpoonup> embedding) \<Rightarrow> vector \<Rightarrow> nat \<Rightarrow> (jsstring \<times> int) list"

section \<open>Asynchronous execution\<close>

text \<open>
  \<open>processMail\<close> is an \<open>async\<close> function: it runs without interruption from one \<open>await\<close>
  to the next, and at an \<open>await\<close> the other tasks of the run, and the store, take their
  turns. The environment of an invocation says what they do: \<open>interleave env n w\<close> is the
  world they leave when the invocation is suspended for the \<open>n\<close>-th time in the world
  \<open>w\<close>, and \<open>rejects env n\<close> says that the call awaited at that suspension rejects. They
  cannot touch what is private to the invocation.
\<close>

record env =
  interleave :: "nat \<Rightarrow> world \<Rightarrow> world"
  rejects :: "nat \<Rightarrow> bool"

definition yield :: "env \<Rightarrow> world \<Rightarrow> world" where
  "yield env w = (interleave env (ticks w) w)\<lparr>ticks := Suc (ticks w), trace := trace w\<rparr>"

text \<open>The environment in which the invocation runs alone and every call succeeds.\<close>

definition calm :: env where
  "calm = \<lparr>interleave = (\<lambda>n w. w), rejects = (\<lambda>n. False)\<rparr>"

text \<open>
  How a task ends: it returns a value, it throws, or it is suspended on a handle that
  is not resolved and never resumes. A task is a function of the world that gives its end
  and the world it ends in; it has no value (\<open>None\<close>) when it runs forever, as the walk
  to the root of a cyclic thread does.
\<close>

datatype 'a completion = Returned 'a | Thrown error | Suspended

type_synonym 'a task = "world \<Rightarrow> ('a completion \<times> world) option"

definition ret :: "'a \<Rightarrow> 'a task" where
  "ret a w = Some (Returned a, w)"

definition throw :: "error \<Rightarrow> 'a task" where
  "throw e w = Some (Thrown e, w)"

definition andThen :: "'a task \<Rightarrow> ('a \<Rightarrow> 'b task) \<Rightarrow> 'b task" where
  "andThen m k w =
     (case m w of
        None \<Rightarrow> None
      | Some (Returned a, w') \<Rightarrow> k a w'
      | Some (Thrown e, w') \<Rightarrow> Some (Thrown e, w')
      | Some (Suspended, w') \<Rightarrow> Some (Suspended, w'))"

text \<open>A synchronous step, and \<open>await\<close> of a call to the store or to an imported
  asynchronous function: the others run, the call takes effect or rejects, the others
  run again, and the invocation resumes.\<close>

definition completed :: "(error + 'a) \<times> world \<Rightarrow> 'a completion \<times> world" where
  "completed rw = (case rw of (Inl e, w) \<Rightarrow> (Thrown e, w) | (Inr a, w) \<Rightarrow> (Returned a, w))"

definition sync :: "'a query \<Rightarrow> 'a task" where
  "sync q w = Some (completed (q w))"

definition awaitQuery :: "env \<Rightarrow> 'a query \<Rightarrow> 'a query" where
  "awaitQuery env q w =
     (if rejects env (ticks w) then (Inl Rejected, yield env w)
      else (case q (yield env w) of (r, w') \<Rightarrow> (r, yield env w')))"

definition await :: "env \<Rightarrow> 'a query \<Rightarrow> 'a task" where
  "await env q w = Some (completed (awaitQuery env q w))"

text \<open>\<open>try { ... } finally { ... }\<close>: the finalizer runs on return and on throw; a task that
  never resumes does not reach it.\<close>

definition tryFinally :: "'a task \<Rightarrow> (world \<Rightarrow> world) \<Rightarrow> 'a task" where
  "tryFinally m fin w =
     (case m w of
        None \<Rightarrow> None
      | Some (Suspended, w') \<Rightarrow> Some (Suspended, w')
      | Some (c, w') \<Rightarrow> Some (c, fin w'))"

subsection \<open>The one-shot handles\<close>

text \<open>
  Modelled from the spec: \<open>deferred.js\<close> is not among the sources. A \<open>Deferred\<close> is a
  one-shot completion handle: \<open>resolve()\<close> resolves it, and a task that awaits its
  promise is suspended until it is resolved. The environment gives the world in which the
  task would resume: when the handle is not resolved there, the task does not resume.
\<close>

definition resolve :: "nat \<Rightarrow> world \<Rightarrow> world" where
  "resolve d w = emit (Resolved d) (w\<lparr>resolved := insert d (resolved w)\<rparr>)"

definition awaitDeferred :: "env \<Rightarrow> nat \<Rightarrow> unit task" where
  "awaitDeferred env d w =
     (if d \<in> resolved (yield env w) then Some (Returned (), emit (Awaited d) (yield env w))
      else Some (Suspended, w))"

definition register :: "jsstring \<Rightarrow> nat \<Rightarrow> world \<Rightarrow> world" where
  "register mid d w = emit (Registered mid d) (w\<lparr>processingTasks := (processingTasks w)(mid \<mapsto> d)\<rparr>)"

section \<open>\<open>processMail\<close>\<close>

text \<open>The fields of \<open>RelaxedParsedMail\<close> the code reads. \<open>p_from\<close> is \<open>from?.value\<close>, the list
  of addresses; \<open>p_html\<close> is \<open>None\<close> for \<open>false\<close> and \<open>undefined\<close>.\<close>

record address =
  a_address :: "jsstring option"
  a_name :: "jsstring option"

record parsedMail =
  p_messageId :: "jsstring option"
  p_from :: "address list option"
  p_html :: "jsstring option"
  p_subject :: "jsstring option"
  p_date :: "jsdate option"
  p_inReplyTo :: "jsstring option"
  p_text :: "jsstring option"

datatype processEmailResult =
    MALFORMED_EMAIL
  | NOT_DORMSPAM
  | DORMSPAM_BUT_ROOT_NOT_IN_DB
  | DORMSPAM_BUT_NOT_EVENT_BY_GPT_3
  | DORMSPAM_BUT_NOT_EVENT_BY_GPT_4
  | DORMSPAM_PROCESSED_WITH_SAME_PROMPT
  | DORMSPAM_BUT_NETWORK_ERROR
  | DORMSPAM_BUT_MALFORMED_JSON
  | DORMSPAM_WITH_EVENT

definition ignoreThisEmailForever :: "env \<Rightarrow> jsstring \<Rightarrow> nat \<Rightarrow> jsdate \<Rightarrow> unit task" where
  "ignoreThisEmailForever env scrapedBy u receivedAt =
     await env (ignoredEmail_upsert scrapedBy u receivedAt)"

definition markProcessedByCurrentModel :: "env \<Rightarrow> deps \<Rightarrow> jsstring \<Rightarrow> unit task" where
  "markProcessedByCurrentModel env deps messageId =
     await env (email_update messageId (CURRENT_MODEL_NAME deps))"

subsection \<open>The root of the thread\<close>

text \<open>The loop \<open>while (root.inReplyToId !== null)\<close>: it returns the root, or leaves
  \<open>processMail\<close> with a result when a parent is not in the store.\<close>

partial_function (option) walkRoot ::
  "env \<Rightarrow> email \<Rightarrow> world \<Rightarrow> ((processEmailResult + email) completion \<times> world) option" where
  "walkRoot env root w =
     (case e_inReplyToId root of
        None \<Rightarrow> Some (Returned (Inr root), w)
      | Some parent \<Rightarrow>
          (case awaitQuery env (email_findUnique parent) w of
             (Inl e, w') \<Rightarrow> Some (Thrown e, w')
           | (Inr None, w') \<Rightarrow> Some (Returned (Inl DORMSPAM_BUT_ROOT_NOT_IN_DB), w')
           | (Inr (Some nextRoot), w') \<Rightarrow> walkRoot env nextRoot w'))"

text \<open>\<open>const prevDeferred = processingTasks.get(...); if (prevDeferred !== undefined)
  await prevDeferred.promise\<close>.\<close>

definition awaitParent :: "env \<Rightarrow> jsstring \<Rightarrow> unit task" where
  "awaitParent env parent w =
     (case processingTasks w parent of
        None \<Rightarrow> Some (Returned (), w)
      | Some prevDeferred \<Rightarrow> awaitDeferred env prevDeferred w)"

text \<open>Lines 230 to 251: the id of the thread's root, after the parent's handle.\<close>

definition resolveRoot ::
  "env \<Rightarrow> parsedMail \<Rightarrow> jsstring \<Rightarrow> (processEmailResult + jsstring) task" where
  "resolveRoot env parsed messageId =
     (case p_inReplyTo parsed of
        None \<Rightarrow> ret (Inr messageId)
      | Some parent \<Rightarrow>
          andThen (await env (email_findUnique parent)) (\<lambda>inReplyToEmail.
            case inReplyToEmail of
              None \<Rightarrow> ret (Inl DORMSPAM_BUT_ROOT_NOT_IN_DB)
            | Some first \<Rightarrow>
                andThen (walkRoot env first) (\<lambda>walked.
                  case walked of
                    Inl result \<Rightarrow> ret (Inl result)
                  | Inr root \<Rightarrow>
                      andThen (awaitParent env (e_messageId first)) (\<lambda>_.
                        ret (Inr (e_messageId root))))))"

subsection \<open>The merge of one extracted event\<close>

text \<open>What the loop body logs for a candidate: it is not inserted because it is merged
  with a stored event, it updates a stored event, or it is inserted.\<close>

datatype decision = NotInserted nat | Updated nat | Inserted nat

text \<open>The branch \<open>merged === "former"\<close> on the index: the candidate's label gets the event,
  and the event leaves the metadata object read from the neighbour's entry.\<close>

definition reattach :: "jsstring \<Rightarrow> vector \<Rightarrow> nat \<Rightarrow> jsstring \<Rightarrow> nat \<Rightarrow> world \<Rightarrow> world" where
  "reattach title v eventId label m w =
     (let w1 = upsertEmbedding title v [eventId] w;
          w2 = setEventIds m (filter (\<lambda>i. i \<noteq> eventId) (eventIdsOf m w1)) w1
      in if eventIdsOf m w2 = [] then deleteEmbedding label w2 else w2)"

text \<open>\<open>for (const eventId of metadata.eventIds)\<close>; \<open>Some\<close> is \<open>continue outer\<close>.\<close>

fun forEventIds ::
  "env \<Rightarrow> host \<Rightarrow> deps \<Rightarrow> candidate \<Rightarrow> jsdate \<Rightarrow> eventData \<Rightarrow> jsstring \<Rightarrow> nat \<Rightarrow> nat list \<Rightarrow>
   decision option task" where
  "forEventIds env host deps event receivedAt newEventData label m [] = ret None"
| "forEventIds env host deps event receivedAt newEventData label m (eventId # ids) =
     andThen (await env (event_findUnique eventId)) (\<lambda>otherEvent.
       case otherEvent of
         None \<Rightarrow> forEventIds env host deps event receivedAt newEventData label m ids
       | Some (other, owner) \<Rightarrow>
           (case mergeEvents host
                   \<lparr>ev_date = c_dateTime event, ev_location = c_location event,
                    ev_fromEmail = Some receivedAt\<rparr>
                   \<lparr>ev_date = d_date other, ev_location = d_location other,
                    ev_fromEmail = owner\<rparr> of
              Inl e \<Rightarrow> throw e
            | Inr Latter \<Rightarrow> ret (Some (NotInserted eventId))
            | Inr Former \<Rightarrow>
                andThen (await env (\<lambda>w. (Inr (createEmbedding deps (c_title event)), w)))
                  (\<lambda>embedding.
                    andThen (sync (\<lambda>w. (Inr (),
                               reattach (c_title event) embedding eventId label m w))) (\<lambda>_.
                    andThen (await env (event_update eventId newEventData)) (\<lambda>_.
                      ret (Some (Updated eventId)))))
            | Inr Unmergable \<Rightarrow>
                forEventIds env host deps event receivedAt newEventData label m ids))"

text \<open>\<open>for (const [title, distance] of knn)\<close>; \<open>getEmbedding(title)!\<close> is destructured, so
  a label that is not in the index throws.\<close>

fun forNeighbors ::
  "env \<Rightarrow> host \<Rightarrow> deps \<Rightarrow> candidate \<Rightarrow> jsdate \<Rightarrow> eventData \<Rightarrow> (jsstring \<times> int) list \<Rightarrow>
   decision option task" where
  "forNeighbors env host deps event receivedAt newEventData [] = ret None"
| "forNeighbors env host deps event receivedAt newEventData ((label, distance) # knn) =
     andThen (sync (\<lambda>w. (case getEmbedding label w of
                            None \<Rightarrow> Inl TypeError
                          | Some e \<Rightarrow> Inr (metadata e, eventIdsOf (metadata e) w), w)))
       (\<lambda>(m, ids).
         andThen (forEventIds env host deps event receivedAt newEventData label m ids)
           (\<lambda>merged.
             case merged of
               Some d \<Rightarrow> ret (Some d)
             | None \<Rightarrow> forNeighbors env host deps event receivedAt newEventData knn))"

text \<open>\<open>newEventData\<close>: the event belongs to the root of the thread.\<close>

definition newEventData :: "jsstring \<Rightarrow> jsstring \<Rightarrow> candidate \<Rightarrow> eventData" where
  "newEventData rootMessageId txt event =
     \<lparr>d_date = c_dateTime event, d_source = DORMSPAM, d_title = c_title event,
      d_location = c_location event, d_organizer = c_organizer event,
      d_duration = c_duration event, d_fromEmailId = Some rootMessageId, d_text = txt\<rparr>"

text \<open>The body of \<open>outer: for (const event of result.events)\<close>.\<close>

definition processEvent ::
  "env \<Rightarrow> host \<Rightarrow> deps \<Rightarrow> jsdate \<Rightarrow> jsstring \<Rightarrow> jsstring \<Rightarrow> candidate \<Rightarrow> decision task" where
  "processEvent env host deps receivedAt rootMessageId txt event =
     andThen (await env (\<lambda>w. (Inr (createEmbedding deps (c_title event)), w))) (\<lambda>embedding.
     andThen (sync (\<lambda>w.
                (case getEmbedding (c_title event) (upsertEmbedding (c_title event) embedding [] w) of
                   None \<Rightarrow> Inl TypeError
                 | Some e \<Rightarrow>
                     Inr (getKNearestNeighbors deps
                            (embeddingDB (upsertEmbedding (c_title event) embedding [] w))
                            (embeddings e) 3),
                 upsertEmbedding (c_title event) embedding [] w))) (\<lambda>knn.
     andThen (forNeighbors env host deps event receivedAt
                (newEventData rootMessageId txt event) knn) (\<lambda>merged.
       case merged of
         Some d \<Rightarrow> ret d
       | None \<Rightarrow>
           andThen (await env (event_create (newEventData rootMessageId txt event)))
             (\<lambda>newEvent.
           andThen (sync (\<lambda>w. (Inr (),
                      upsertEmbedding (c_title event) embedding [evt_id newEvent] w))) (\<lambda>_.
             ret (Inserted (evt_id newEvent)))))))"

fun forEvents ::
  "env \<Rightarrow> host \<Rightarrow> deps \<Rightarrow> jsdate \<Rightarrow> jsstring \<Rightarrow> jsstring \<Rightarrow> candidate list \<Rightarrow> unit task" where
  "forEvents env host deps receivedAt rootMessageId txt [] = ret ()"
| "forEvents env host deps receivedAt rootMessageId txt (event # rest) =
     andThen (processEvent env host deps receivedAt rootMessageId txt event) (\<lambda>_.
       forEvents env host deps receivedAt rootMessageId txt rest)"

subsection \<open>The pipeline\<close>

text \<open>The constants \<open>processMail\<close> holds once the message has passed the checks.\<close>

record locals =
  l_messageId :: jsstring
  l_senderAddress :: jsstring
  l_senderName :: jsstring
  l_subject :: jsstring
  l_html :: jsstring
  l_text :: jsstring
  l_receivedAt :: jsdate
  l_inReplyTo :: "jsstring option"

text \<open>Line 365 calls \<open>markProcessedByCurrentModel()\<close> without \<open>await\<close>: the update of the
  store is issued, and \<open>processMail\<close> goes on without it.\<close>

definition issue :: "jsstring \<Rightarrow> jsstring \<Rightarrow> world \<Rightarrow> world" where
  "issue mid mn w = w\<lparr>inflight := inflight w @ [(mid, mn)]\<rparr>"

text \<open>Lines 253 to 295: the upsert of the message, and the events of the thread's root
  that an older model has left; \<open>Some\<close> is a \<open>return\<close> from \<open>processMail\<close>.\<close>

definition storeAndInvalidate ::
  "env \<Rightarrow> deps \<Rightarrow> jsstring \<Rightarrow> nat \<Rightarrow> locals \<Rightarrow> jsstring \<Rightarrow> processEmailResult option task" where
  "storeAndInvalidate env deps scrapedBy u l rootMessageId =
     andThen (await env
       (email_upsert (l_messageId l) scrapedBy u (l_senderAddress l) (l_senderName l)
          (l_subject l) (l_html l) (l_receivedAt l)
          (CURRENT_MODEL_NAME deps @ js ''_PROCESSING'') (l_inReplyTo l))) (\<lambda>_.
     andThen (await env (event_findFirst rootMessageId)) (\<lambda>existing.
       case existing of
         None \<Rightarrow> ret None
       | Some (ev, modelName) \<Rightarrow>
           if modelName = Some (CURRENT_MODEL_NAME deps)
           then andThen (markProcessedByCurrentModel env deps (l_messageId l)) (\<lambda>_.
                  ret (Some DORMSPAM_PROCESSED_WITH_SAME_PROMPT))
           else andThen (await env (event_deleteMany rootMessageId)) (\<lambda>_. ret None)))"

text \<open>Lines 297 to 367: the extraction, the merge of its events and the last return.\<close>

definition extractAndMerge ::
  "env \<Rightarrow> host \<Rightarrow> deps \<Rightarrow> locals \<Rightarrow> jsstring \<Rightarrow> processEmailResult task" where
  "extractAndMerge env host deps l rootMessageId =
     andThen (await env (\<lambda>w.
       (Inr (extractFromEmail deps (l_subject l) (l_text l) (l_receivedAt l)), w)))
       (\<lambda>result.
         case result of
           ErrorMalformedJson \<Rightarrow> ret DORMSPAM_BUT_MALFORMED_JSON
         | ErrorOpenaiNetwork \<Rightarrow> ret DORMSPAM_BUT_NETWORK_ERROR
         | RejectedByGpt3 \<Rightarrow>
             andThen (markProcessedByCurrentModel env deps (l_messageId l)) (\<lambda>_.
               ret DORMSPAM_BUT_NOT_EVENT_BY_GPT_3)
         | RejectedByGpt4 \<Rightarrow>
             andThen (markProcessedByCurrentModel env deps (l_messageId l)) (\<lambda>_.
               ret DORMSPAM_BUT_NOT_EVENT_BY_GPT_4)
         | Admitted found \<Rightarrow>
             andThen (forEvents env host deps (l_receivedAt l) rootMessageId (l_text l)
                        found) (\<lambda>_.
             andThen (sync (\<lambda>w. (Inr (),
                        issue (l_messageId l) (CURRENT_MODEL_NAME deps) w))) (\<lambda>_.
               ret DORMSPAM_WITH_EVENT)))"

definition storeAndExtract ::
  "env \<Rightarrow> host \<Rightarrow> deps \<Rightarrow> jsstring \<Rightarrow> nat \<Rightarrow> locals \<Rightarrow> jsstring \<Rightarrow> processEmailResult task" where
  "storeAndExtract env host deps scrapedBy u l rootMessageId =
     andThen (storeAndInvalidate env deps scrapedBy u l rootMessageId) (\<lambda>returned.
       case returned of
         Some result \<Rightarrow> ret result
       | None \<Rightarrow> extractAndMerge env host deps l rootMessageId)"

text \<open>Lines 220 to 224: the sender's name falls back to the address, and the text to the
  converted body. Lines 214 to 251, for a message with all its fields: the conflict of
  identities, the classifier and the root of the thread.\<close>

definition localsOf ::
  "deps \<Rightarrow> parsedMail \<Rightarrow> jsdate \<Rightarrow> jsstring \<Rightarrow> address \<Rightarrow> jsstring \<Rightarrow> jsstring \<Rightarrow> jsstring \<Rightarrow>
   locals" where
  "localsOf deps parsed receivedAt messageId sender senderAddress html subject =
     \<lparr>l_messageId = messageId, l_senderAddress = senderAddress,
      l_senderName = (case a_name sender of None \<Rightarrow> senderAddress | Some n \<Rightarrow> n),
      l_subject = subject, l_html = html,
      l_text = removeArtifacts deps
                 (case p_text parsed of None \<Rightarrow> convert deps html | Some t \<Rightarrow> t),
      l_receivedAt = receivedAt, l_inReplyTo = p_inReplyTo parsed\<rparr>"

definition classifyAndResolve ::
  "env \<Rightarrow> host \<Rightarrow> deps \<Rightarrow> jsstring \<Rightarrow> nat \<Rightarrow> parsedMail \<Rightarrow> locals \<Rightarrow> processEmailResult task" where
  "classifyAndResolve env host deps scrapedBy u parsed l =
     andThen (await env (email_findUnique (l_messageId l))) (\<lambda>emailWithSameMessageId.
       if (case emailWithSameMessageId of None \<Rightarrow> False | Some e \<Rightarrow> e_uid e \<noteq> u)
       then andThen (ignoreThisEmailForever env scrapedBy u (l_receivedAt l)) (\<lambda>_.
              ret MALFORMED_EMAIL)
       else if \<not> isDormspam (l_text l)
       then andThen (ignoreThisEmailForever env scrapedBy u (l_receivedAt l)) (\<lambda>_.
              ret NOT_DORMSPAM)
       else
         andThen (resolveRoot env parsed (l_messageId l)) (\<lambda>resolution.
           case resolution of
             Inl result \<Rightarrow> ret result
           | Inr rootMessageId \<Rightarrow>
               storeAndExtract env host deps scrapedBy u l rootMessageId))"

text \<open>
  Lines 203 to 212 and what follows them. The condition of the first \<open>if\<close> is evaluated
  from the left: \<open>from.value[0].address\<close> throws when the list of addresses is empty, and
  \<open>!html\<close> holds for the empty string too.
\<close>

definition checkAndProcess ::
  "env \<Rightarrow> host \<Rightarrow> deps \<Rightarrow> jsstring \<Rightarrow> nat \<Rightarrow> parsedMail \<Rightarrow> jsdate \<Rightarrow> processEmailResult task" where
  "checkAndProcess env host deps scrapedBy u parsed receivedAt =
     (case p_messageId parsed of
        None \<Rightarrow>
          andThen (ignoreThisEmailForever env scrapedBy u receivedAt) (\<lambda>_. ret MALFORMED_EMAIL)
      | Some messageId \<Rightarrow>
          (case p_from parsed of
             None \<Rightarrow>
               andThen (ignoreThisEmailForever env scrapedBy u receivedAt) (\<lambda>_.
                 ret MALFORMED_EMAIL)
           | Some [] \<Rightarrow> throw TypeError
           | Some (sender # _) \<Rightarrow>
               (case (a_address sender, p_html parsed, p_subject parsed) of
                  (Some senderAddress, Some (c # html), Some subject) \<Rightarrow>
                    classifyAndResolve env host deps scrapedBy u parsed
                      (localsOf deps parsed receivedAt messageId sender senderAddress
                         (c # html) subject)
                | _ \<Rightarrow>
                    andThen (ignoreThisEmailForever env scrapedBy u receivedAt) (\<lambda>_.
                      ret MALFORMED_EMAIL))))"

text \<open>The body of the \<open>try\<close> block: the handle is registered under the message id, if
  there is one, before anything is awaited.\<close>

definition tryBlock ::
  "env \<Rightarrow> host \<Rightarrow> deps \<Rightarrow> jsstring \<Rightarrow> nat \<Rightarrow> parsedMail \<Rightarrow> jsdate \<Rightarrow> nat \<Rightarrow>
   processEmailResult task" where
  "tryBlock env host deps scrapedBy u parsed receivedAt deferred =
     andThen (sync (\<lambda>w. (Inr (),
                case p_messageId parsed of
                  None \<Rightarrow> w
                | Some messageId \<Rightarrow> register messageId deferred w))) (\<lambda>_.
       checkAndProcess env host deps scrapedBy u parsed receivedAt)"

text \<open>\<open>processMail\<close>: the handle is created before the \<open>try\<close>, and resolved in its
  \<open>finally\<close>.\<close>

definition processMail ::
  "env \<Rightarrow> host \<Rightarrow> deps \<Rightarrow> jsstring \<Rightarrow> nat \<Rightarrow> parsedMail \<Rightarrow> processEmailResult task" where
  "processMail env host deps scrapedBy u parsed w =
     tryFinally
       (tryBlock env host deps scrapedBy u parsed
          (case p_date parsed of None \<Rightarrow> clock host | Some d \<Rightarrow> d) (nextDeferred w))
       (resolve (nextDeferred w))
       (w\<lparr>nextDeferred := Suc (nextDeferred w)\<rparr>)"

section \<open>The messages a run looks at\<close>

text \<open>
  Lines 32 to 66 and 89 of \<open>fetchEmailsAndExtractEvents\<close>, for the uids \<open>allUids\<close> the
  mailbox returns for the lookback window: the uids that are neither ignored nor
  processed by the current model, the stored messages that are processed again, and the
  uids that are fetched from the mailbox.
\<close>

fun minUid :: "nat list \<Rightarrow> nat option" where
  "minUid [] = None"
| "minUid (u # us) = Some (fold min us u)"

text \<open>The filter \<open>byUserAndRecent\<close>; \<open>Math.min\<close> of no uids is \<open>Infinity\<close>, which no uid
  reaches.\<close>

definition byUserAndRecent :: "jsstring \<Rightarrow> nat list \<Rightarrow> jsstring \<Rightarrow> nat \<Rightarrow> bool" where
  "byUserAndRecent user allUids sb u =
     (sb = user \<and> (case minUid allUids of None \<Rightarrow> False | Some m \<Rightarrow> m \<le> u))"

definition ignoredUids :: "jsstring \<Rightarrow> nat list \<Rightarrow> world \<Rightarrow> nat list" where
  "ignoredUids user allUids w =
     map i_uid
       (filter (\<lambda>r. byUserAndRecent user allUids (i_scrapedBy r) (i_uid r)) (ignoredEmails w))"

definition processedUids :: "deps \<Rightarrow> jsstring \<Rightarrow> nat list \<Rightarrow> world \<Rightarrow> nat list" where
  "processedUids deps user allUids w =
     map e_uid
       (filter (\<lambda>e. byUserAndRecent user allUids (e_scrapedBy e) (e_uid e) \<and>
                     e_modelName e = CURRENT_MODEL_NAME deps) (emails w))"

definition seenUids :: "deps \<Rightarrow> jsstring \<Rightarrow> nat list \<Rightarrow> world \<Rightarrow> nat list" where
  "seenUids deps user allUids w = ignoredUids user allUids w @ processedUids deps user allUids w"

definition unseenUids :: "deps \<Rightarrow> jsstring \<Rightarrow> nat list \<Rightarrow> world \<Rightarrow> nat list" where
  "unseenUids deps user allUids w =
     filter (\<lambda>u. u \<notin> set (seenUids deps user allUids w)) allUids"

definition fetchedEmails :: "deps \<Rightarrow> jsstring \<Rightarrow> nat list \<Rightarrow> world \<Rightarrow> email list" where
  "fetchedEmails deps user allUids w =
     sort_key e_receivedAt
       (filter (\<lambda>e. byUserAndRecent user allUids (e_scrapedBy e) (e_uid e) \<and>
                     e_modelName e \<noteq> CURRENT_MODEL_NAME deps) (emails w))"

definition uidsToFetch :: "deps \<Rightarrow> jsstring \<Rightarrow> nat list \<Rightarrow> world \<Rightarrow> nat list" where
  "uidsToFetch deps user allUids w =
     filter (\<lambda>u. u \<notin> set (map e_uid (fetchedEmails deps user allUids w)))
       (unseenUids deps user allUids w)"

text \<open>The uids \<open>processMail\<close> is called with: none when there is no unseen uid (line 58),
  otherwise those of the stored messages that are processed again and those fetched.\<close>

definition uidsOfRun :: "deps \<Rightarrow> jsstring \<Rightarrow> nat list \<Rightarrow> world \<Rightarrow> nat list" where
  "uidsOfRun deps user allUids w =
     (if unseenUids deps user allUids w = [] then []
      else map e_uid (fetchedEmails deps user allUids w) @ uidsToFetch deps user allUids w)"

section \<open>The claims in the specification's words\<close>

subsection \<open>The classifier\<close>

text \<open>
  White space, character by character: tab, line feed, vertical tab, form feed, carriage
  return, space, no-break space, the Ogham space mark, the spaces from en quad to hair
  space, line and paragraph separator, narrow no-break space, medium mathematical space,
  ideographic space and the byte order mark.
\<close>

definition whiteSpaceChars :: "nat list" where
  "whiteSpaceChars =
     [0x9, 0xA, 0xB, 0xC, 0xD, 0x20, 0xA0, 0x1680,
      0x2000, 0x2001, 0x2002, 0x2003, 0x2004, 0x2005, 0x2006, 0x2007, 0x2008, 0x2009, 0x200A,
      0x2028, 0x2029, 0x202F, 0x205F, 0x3000, 0xFEFF]"

definition isSpace :: "nat \<Rightarrow> bool" where
  "isSpace c = (c \<in> set whiteSpaceChars)"

text \<open>
  Case does not count: an upper-case letter reads as the lower-case letter at the same
  place of the alphabet, and so do the two characters whose lower-case form is an ASCII
  letter, the Kelvin sign (\<open>k\<close>) and the long s (\<open>s\<close>).
\<close>

definition upperCase :: jsstring where
  "upperCase = js ''ABCDEFGHIJKLMNOPQRSTUVWXYZ''"

definition lowerCase :: jsstring where
  "lowerCase = js ''abcdefghijklmnopqrstuvwxyz''"

definition foldCase :: "nat \<Rightarrow> nat" where
  "foldCase c =
     (case map_of (zip upperCase lowerCase @ [(0x212A, 0x6B), (0x17F, 0x73)]) c of
        None \<Rightarrow> c
      | Some l \<Rightarrow> l)"

text \<open>
  The text with its case folded and every run of white space replaced by one space; a
  phrase is contained in a text when it occurs in the normalised text.
\<close>

function normalise :: "jsstring \<Rightarrow> jsstring" where
  "normalise [] = []"
| "normalise (c # cs) =
     (if isSpace c then 0x20 # normalise (dropWhile isSpace cs)
      else foldCase c # normalise cs)"
  by pat_completeness auto
termination
  by (relation "measure length") (auto simp: le_imp_less_Suc length_dropWhile_le)

definition containsPhrase :: "jsstring \<Rightarrow> jsstring \<Rightarrow> bool" where
  "containsPhrase t k = sublist k (normalise t)"

subsection \<open>The merge test\<close>

text \<open>
  The date test in the specification's words: the time values are equal, or one of the
  dates carries the all-day marker (its local time lies in the first minute of its day)
  and both fall on the same day of the week. The location test: one of the lower-cased
  locations is \<open>unknown\<close>, or one occurs in the other.
\<close>

definition allDayMarker :: "host \<Rightarrow> jsdate \<Rightarrow> bool" where
  "allDayMarker h d = (localTime h d mod 86400000 < 60000)"

definition dateCompatible :: "host \<Rightarrow> mergeable \<Rightarrow> mergeable \<Rightarrow> bool" where
  "dateCompatible h a b =
     (ev_date a = ev_date b \<or>
      ((allDayMarker h (ev_date a) \<or> allDayMarker h (ev_date b)) \<and>
       getDay h (ev_date a) = getDay h (ev_date b)))"

definition locationCompatible :: "host \<Rightarrow> mergeable \<Rightarrow> mergeable \<Rightarrow> bool" where
  "locationCompatible h a b =
     (toLowerCase h (ev_location a) = js ''unknown'' \<or>
      toLowerCase h (ev_location b) = js ''unknown'' \<or>
      sublist (toLowerCase h (ev_location a)) (toLowerCase h (ev_location b)) \<or>
      sublist (toLowerCase h (ev_location b)) (toLowerCase h (ev_location a)))"

subsection \<open>What an invocation does\<close>

text \<open>
  The effects of an invocation that starts in \<open>w\<close> and ends in \<open>w'\<close>; the effects that
  write a message or an event of the store (a tombstone is the other kind of write); the
  effects that resolve a handle.
\<close>

definition effectsOf :: "world \<Rightarrow> world \<Rightarrow> effect list" where
  "effectsOf w w' = drop (length (trace w)) (trace w')"

definition recordWrite :: "effect \<Rightarrow> bool" where
  "recordWrite x =
     (case x of
        EmailUpsert _ \<Rightarrow> True | EmailUpdate _ \<Rightarrow> True | EventDeleteMany _ \<Rightarrow> True
      | EventCreate _ \<Rightarrow> True | EventUpdate _ \<Rightarrow> True | _ \<Rightarrow> False)"

definition isResolved :: "effect \<Rightarrow> bool" where
  "isResolved x = (case x of Resolved _ \<Rightarrow> True | _ \<Rightarrow> False)"

text \<open>
  An environment in which the handle \<open>d\<close> is the one registered under the id of the
  message \<open>parent\<close> whenever the invocation is suspended: no other task registers a handle
  under this id. An environment in which the handle is resolved at some suspension.
\<close>

definition registeredAs :: "env \<Rightarrow> jsstring \<Rightarrow> nat \<Rightarrow> bool" where
  "registeredAs env parent d = (\<forall>n v. processingTasks (interleave env n v) parent = Some d)"

definition everResolved :: "env \<Rightarrow> nat \<Rightarrow> bool" where
  "everResolved env d = (\<exists>n v. d \<in> resolved (interleave env n v))"

text \<open>
  The order of the effects of an invocation for a reply: it writes no message and no
  event, or its first such write comes after it has awaited the handle \<open>d\<close> and found it
  resolved.
\<close>

definition writesAfter :: "env \<Rightarrow> nat \<Rightarrow> effect list \<Rightarrow> bool" where
  "writesAfter env d es =
     (list_all (\<lambda>x. \<not> recordWrite x) es \<or>
      (\<exists>pre post. es = pre @ Awaited d # post \<and> list_all (\<lambda>x. \<not> recordWrite x) pre \<and>
                  everResolved env d))"

subsection \<open>The merge step\<close>

text \<open>
  The tables of the Persistent Store, without what belongs to the index, the registry and
  the invocation. The two arguments \<open>mergeEvents\<close> gets in the loop: the extracted event
  with the time its message was received, and the stored event with that of its owning
  message.
\<close>

definition storeOf :: "world \<Rightarrow> email list \<times> sender list \<times> event list \<times> nat \<times> ignored list" where
  "storeOf w = (emails w, senders w, events w, nextEventId w, ignoredEmails w)"

definition candidateSide :: "candidate \<Rightarrow> jsdate \<Rightarrow> mergeable" where
  "candidateSide ev rcv =
     \<lparr>ev_date = c_dateTime ev, ev_location = c_location ev, ev_fromEmail = Some rcv\<rparr>"

definition storedSide :: "event \<Rightarrow> jsdate option \<Rightarrow> mergeable" where
  "storedSide other owner =
     \<lparr>ev_date = d_date other, ev_location = d_location other, ev_fromEmail = owner\<rparr>"

subsection \<open>The checks and the chain of replies\<close>

text \<open>
  A message that has its identity, the address of its first sender, a body and a
  subject; a message whose identity is that of a stored message with another uid; the
  text the classifier reads.
\<close>

definition passesChecks :: "parsedMail \<Rightarrow> bool" where
  "passesChecks parsed =
     (p_messageId parsed \<noteq> None \<and>
      (case p_from parsed of
         None \<Rightarrow> False
       | Some [] \<Rightarrow> False
       | Some (sender # _) \<Rightarrow> a_address sender \<noteq> None) \<and>
      (case p_html parsed of None \<Rightarrow> False | Some h \<Rightarrow> h \<noteq> []) \<and>
      p_subject parsed \<noteq> None)"

definition conflicting :: "parsedMail \<Rightarrow> nat \<Rightarrow> world \<Rightarrow> bool" where
  "conflicting parsed u w =
     (case p_messageId parsed of
        None \<Rightarrow> False
      | Some mid \<Rightarrow> (case findEmail mid w of None \<Rightarrow> False | Some e \<Rightarrow> e_uid e \<noteq> u))"

definition textOf :: "deps \<Rightarrow> parsedMail \<Rightarrow> jsstring" where
  "textOf deps parsed =
     removeArtifacts deps
       (case p_text parsed of
          None \<Rightarrow> convert deps (case p_html parsed of None \<Rightarrow> [] | Some h \<Rightarrow> h)
        | Some t \<Rightarrow> t)"

text \<open>The chain of replies that starts at the message \<open>mid\<close> has \<open>n\<close> stored messages, each
  a reply, and then a message that is not in the store.\<close>

fun orphaned :: "world \<Rightarrow> jsstring \<Rightarrow> nat \<Rightarrow> bool" where
  "orphaned w mid 0 = (findEmail mid w = None)"
| "orphaned w mid (Suc n) =
     (case findEmail mid w of
        None \<Rightarrow> False
      | Some e \<Rightarrow> (case e_inReplyToId e of None \<Rightarrow> False | Some p \<Rightarrow> orphaned w p n))"

subsection \<open>The mark of a processed message and the tombstones\<close>

text \<open>The effect of \<open>markProcessedByCurrentModel\<close>, an update of a message; the ignored
  ledger after an upsert of the tombstone of a uid.\<close>

definition isEmailUpdate :: "effect \<Rightarrow> bool" where
  "isEmailUpdate x = (case x of EmailUpdate _ \<Rightarrow> True | _ \<Rightarrow> False)"

definition tombstone :: "jsstring \<Rightarrow> nat \<Rightarrow> jsdate \<Rightarrow> ignored list \<Rightarrow> ignored list" where
  "tombstone sb u rcv rows =
     (if list_ex (\<lambda>r. i_scrapedBy r = sb \<and> i_uid r = u) rows then rows
      else rows @ [\<lparr>i_scrapedBy = sb, i_uid = u, i_receivedAt = rcv\<rparr>])"

section \<open>Notions for the proofs\<close>

text \<open>
  The text as the regular expression reads it: the characters as \<open>canonicalize\<close> compares
  them, and a space for every run of characters that \<open>\s\<close> matches.
\<close>

function folded :: "jsstring \<Rightarrow> jsstring" where
  "folded [] = []"
| "folded (c # cs) =
     (if isWhiteSpace c then 0x20 # folded (dropWhile isWhiteSpace cs)
      else canonicalize c # folded cs)"
  by pat_completeness auto
termination
  by (relation "measure length") (auto simp: le_imp_less_Suc length_dropWhile_le)

text \<open>The shape of a keyword: words of characters that are not white space and are their
  own case folding, separated by single spaces.\<close>

definition plain :: "nat \<Rightarrow> bool" where
  "plain c = (\<not> isWhiteSpace c \<and> canonicalize c = c)"

fun phrase_ok :: "jsstring \<Rightarrow> bool" where
  "phrase_ok [] = False"
| "phrase_ok [c] = plain c"
| "phrase_ok (c # d # r) =
     (plain c \<and> (if d = 0x20 then phrase_ok r else phrase_ok (d # r)))"

text \<open>Every run of a task, and every execution of a query, adds to the trace only
  effects with a given property.\<close>

definition emitsOnly :: "(effect \<Rightarrow> bool) \<Rightarrow> 'a task \<Rightarrow> bool" where
  "emitsOnly P m = (\<forall>w r w'. m w = Some (r, w') \<longrightarrow> (\<exists>es. trace w' = trace w @ es \<and> list_all P es))"

definition queryEmitsOnly :: "(effect \<Rightarrow> bool) \<Rightarrow> 'a query \<Rightarrow> bool" where
  "queryEmitsOnly P q = (\<forall>w. \<exists>es. trace (snd (q w)) = trace w @ es \<and> list_all P es)"

text \<open>The handle is the one registered under the id of the parent, in one world.\<close>

definition entry :: "jsstring \<Rightarrow> nat \<Rightarrow> world \<Rightarrow> bool" where
  "entry parent d w = (processingTasks w parent = Some d)"

text \<open>Two worlds that differ at most in the count of suspensions.\<close>

definition sameButTicks :: "world \<Rightarrow> world \<Rightarrow> bool" where
  "sameButTicks w w' = (\<exists>n. w' = w\<lparr>ticks := n\<rparr>)"

text \<open>The world after the branch \<open>merged === "former"\<close> for the stored event \<open>i\<close> found
  under \<open>label\<close>, and whether its update of the store succeeds.\<close>

definition superseded :: "deps \<Rightarrow> candidate \<Rightarrow> eventData \<Rightarrow> nat \<Rightarrow> jsstring \<Rightarrow> nat \<Rightarrow> world \<Rightarrow> world" where
  "superseded deps ev d i label m w =
     snd (event_update i d
            (reattach (c_title ev) (createEmbedding deps (c_title ev)) i label m w))"

definition supersedable :: "deps \<Rightarrow> candidate \<Rightarrow> eventData \<Rightarrow> nat \<Rightarrow> jsstring \<Rightarrow> nat \<Rightarrow> world \<Rightarrow> bool" where
  "supersedable deps ev d i label m w =
     (fst (event_update i d
             (reattach (c_title ev) (createEmbedding deps (c_title ev)) i label m w)) = Inr ())"

text \<open>How the loop over the event ids of one neighbour, and the loop over the neighbours,
  can end when the invocation runs alone.\<close>

definition loopEnd ::
  "deps \<Rightarrow> candidate \<Rightarrow> eventData \<Rightarrow> jsstring \<Rightarrow> nat \<Rightarrow> nat list \<Rightarrow> world \<Rightarrow>
   decision option completion \<Rightarrow> world \<Rightarrow> bool" where
  "loopEnd deps ev d label m ids w c w' =
     (case c of
        Returned None \<Rightarrow> sameButTicks w w'
      | Returned (Some (NotInserted i)) \<Rightarrow> i \<in> set ids \<and> sameButTicks w w'
      | Returned (Some (Updated i)) \<Rightarrow>
          i \<in> set ids \<and> supersedable deps ev d i label m w \<and>
          sameButTicks (superseded deps ev d i label m w) w'
      | Returned (Some (Inserted i)) \<Rightarrow> False
      | Thrown e \<Rightarrow> True
      | Suspended \<Rightarrow> False)"

definition neighborsEnd ::
  "deps \<Rightarrow> candidate \<Rightarrow> eventData \<Rightarrow> (jsstring \<times> int) list \<Rightarrow> world \<Rightarrow>
   decision option completion \<Rightarrow> world \<Rightarrow> bool" where
  "neighborsEnd deps ev d knn w c w' =
     (case c of
        Returned None \<Rightarrow> sameButTicks w w'
      | Returned (Some (NotInserted i)) \<Rightarrow> sameButTicks w w'
      | Returned (Some (Updated i)) \<Rightarrow>
          (\<exists>label e. label \<in> fst ` set knn \<and> getEmbedding label w = Some e \<and>
             i \<in> set (eventIdsOf (metadata e) w) \<and>
             supersedable deps ev d i label (metadata e) w \<and>
             sameButTicks (superseded deps ev d i label (metadata e) w) w')
      | Returned (Some (Inserted i)) \<Rightarrow> False
      | Thrown e \<Rightarrow> True
      | Suspended \<Rightarrow> False)"

text \<open>The world in which an invocation ends that has found no root after \<open>n\<close> stored
  ancestors: its handle is registered and resolved, and the store is as before.\<close>

definition rootNotFound :: "parsedMail \<Rightarrow> nat \<Rightarrow> world \<Rightarrow> world" where
  "rootNotFound parsed n w =
     (case p_messageId parsed of
        None \<Rightarrow> w
      | Some mid \<Rightarrow>
          w\<lparr>processingTasks := (processingTasks w)(mid \<mapsto> nextDeferred w),
            resolved := insert (nextDeferred w) (resolved w),
            nextDeferred := Suc (nextDeferred w),
            ticks := ticks w + 4 + 2 * n,
            trace := trace w @ [Registered mid (nextDeferred w), Resolved (nextDeferred w)]\<rparr>)"

text \<open>From one world to a later one the invocation has completed no update of a message.\<close>

definition quiet :: "world \<Rightarrow> world \<Rightarrow> bool" where
  "quiet w w' = (\<exists>es. trace w' = trace w @ es \<and> list_all (\<lambda>x. \<not> isEmailUpdate x) es)"

text \<open>A task, or a query, leaves the stored messages and the requests in flight as they
  are.\<close>

definition keepsMessages :: "'a task \<Rightarrow> bool" where
  "keepsMessages m =
     (\<forall>w c w'. m w = Some (c, w') \<longrightarrow> emails w' = emails w \<and> inflight w' = inflight w)"

definition queryKeepsMessages :: "'a query \<Rightarrow> bool" where
  "queryKeepsMessages q =
     (\<forall>w. emails (snd (q w)) = emails w \<and> inflight (snd (q w)) = inflight w)"

section \<open>Concrete inputs\<close>

text \<open>A host in the time zone UTC whose \<open>toLowerCase\<close> is that of ASCII, and the example
  of the specification: an all-day lecture at an unknown location, and a lecture series
  on the same day in Building 10.\<close>

definition asciiLower :: "jsstring \<Rightarrow> jsstring" where
  "asciiLower s = map (\<lambda>c. if 0x41 \<le> c \<and> c \<le> 0x5A then c + 0x20 else c) s"

definition host0 :: host where
  "host0 = \<lparr>toLowerCase = asciiLower, localTZA = (\<lambda>t. 0), clock = 0\<rparr>"

definition lecture :: mergeable where
  "lecture = \<lparr>ev_date = 1709251200000, ev_location = js ''Unknown'', ev_fromEmail = Some 2\<rparr>"

definition lectureSeries :: mergeable where
  "lectureSeries =
     \<lparr>ev_date = 1709316000000, ev_location = js ''Building 10'', ev_fromEmail = Some 1\<rparr>"

definition orphan :: mergeable where
  "orphan = \<lparr>ev_date = 1709316000000, ev_location = js ''Building 10'', ev_fromEmail = None\<rparr>"

text \<open>
  Imported functions that return fixed answers; the empty world; a lone announcement
  \<open>a\<close>, a reply \<open>b\<close> to it, the same reply without a keyword, and the announcement with an
  empty list of sender addresses and no body; the announcement as a row of the store.
\<close>

definition deps0 :: "extraction \<Rightarrow> (jsstring \<times> int) list \<Rightarrow> deps" where
  "deps0 x knn = \<lparr>CURRENT_MODEL_NAME = js ''M2'', convert = (\<lambda>s. s), removeArtifacts = (\<lambda>s. s),
     extractFromEmail = (\<lambda>s t d. x), createEmbedding = (\<lambda>t. []),
     getKNearestNeighbors = (\<lambda>db v k. knn)\<rparr>"

definition world0 :: world where
  "world0 = \<lparr>emails = [], senders = [], events = [], nextEventId = 1, ignoredEmails = [],
     embeddingDB = Map.empty, metaHeap = Map.empty, nextObject = 0,
     processingTasks = Map.empty, resolved = {}, nextDeferred = 0, inflight = [],
     ticks = 0, trace = []\<rparr>"

definition someone :: address where
  "someone = \<lparr>a_address = Some (js ''x@y''), a_name = None\<rparr>"

definition announcement :: parsedMail where
  "announcement = \<lparr>p_messageId = Some (js ''a''), p_from = Some [someone],
     p_html = Some (js ''hi''), p_subject = Some (js ''party''), p_date = Some 1,
     p_inReplyTo = None, p_text = Some (js ''bcc to dorms'')\<rparr>"

definition reply :: parsedMail where
  "reply = \<lparr>p_messageId = Some (js ''b''), p_from = Some [someone],
     p_html = Some (js ''ok''), p_subject = Some (js ''re''), p_date = Some 2,
     p_inReplyTo = Some (js ''a''), p_text = Some (js ''bcc to dorms'')\<rparr>"

definition chatter :: parsedMail where
  "chatter = reply\<lparr>p_text := Some (js ''see you'')\<rparr>"

definition headless :: parsedMail where
  "headless = announcement\<lparr>p_from := Some [], p_html := None\<rparr>"

definition stored :: "jsstring \<Rightarrow> email" where
  "stored mn = \<lparr>e_messageId = js ''a'', e_scrapedBy = js ''me'', e_uid = 3,
     e_senderEmail = js ''x@y'', e_subject = js ''party'', e_body = js ''hi'',
     e_receivedAt = 1, e_modelName = mn, e_inReplyToId = None\<rparr>"

text \<open>A run in which the task of message \<open>a\<close> has registered its handle 9 and has not
  resolved it; an environment that keeps it so.\<close>

definition waiting :: world where
  "waiting = world0\<lparr>emails := [stored (js ''M2'')], processingTasks := [js ''a'' \<mapsto> 9],
     nextDeferred := 10\<rparr>"

definition stalling :: env where
  "stalling = \<lparr>interleave = (\<lambda>n w. w\<lparr>processingTasks := (processingTasks w)(js ''a'' \<mapsto> 9),
                                        resolved := resolved w - {9}\<rparr>),
               rejects = (\<lambda>n. False)\<rparr>"

text \<open>The worlds in which the runs below end.\<close>

definition headlessEnd :: world where
  "headlessEnd =
     world0\<lparr>processingTasks := [js ''a'' \<mapsto> 0], resolved := {0}, nextDeferred := 1,
            trace := [Registered (js ''a'') 0, Resolved 0]\<rparr>"

definition chatterEnd :: world where
  "chatterEnd =
     waiting\<lparr>ignoredEmails := [\<lparr>i_scrapedBy = js ''me'', i_uid = 7, i_receivedAt = 2\<rparr>],
             processingTasks := [js ''a'' \<mapsto> 9, js ''b'' \<mapsto> 10], resolved := {10},
             nextDeferred := 11, ticks := 4,
             trace := [Registered (js ''b'') 10, IgnoredUpsert (js ''me'') 7, Resolved 10]\<rparr>"

definition replySuspended :: world where
  "replySuspended =
     waiting\<lparr>processingTasks := [js ''b'' \<mapsto> 10, js ''a'' \<mapsto> 9],
             nextDeferred := 11, ticks := 4, trace := [Registered (js ''b'') 10]\<rparr>"

text \<open>
  Two extracted events at the same time, one in Lobby 7 and one in the lobby; a store
  that holds the message \<open>a\<close>, received at time 1, and its event 1, the party, which the
  index lists under its title; the worlds after the second event has been dropped and
  after it has replaced the first.
\<close>

definition party :: candidate where
  "party = \<lparr>c_title = js ''party'', c_dateTime = 86400000, c_location = js ''Lobby 7'',
     c_organizer = js ''x'', c_duration = 60\<rparr>"

definition bash :: candidate where
  "bash = \<lparr>c_title = js ''bash'', c_dateTime = 86400000, c_location = js ''lobby'',
     c_organizer = js ''x'', c_duration = 30\<rparr>"

definition diary :: world where
  "diary = world0\<lparr>emails := [stored (js ''M2'')],
     events := [row 1 (newEventData (js ''a'') (js ''bcc to dorms'') party)], nextEventId := 2,
     embeddingDB := [js ''party'' \<mapsto> \<lparr>embeddings = [], metadata = 0\<rparr>],
     metaHeap := [0 \<mapsto> [1]], nextObject := 1\<rparr>"

definition diaryKept :: world where
  "diaryKept = diary\<lparr>
     embeddingDB := [js ''party'' \<mapsto> \<lparr>embeddings = [], metadata = 0\<rparr>,
                     js ''bash'' \<mapsto> \<lparr>embeddings = [], metadata = 1\<rparr>],
     metaHeap := [0 \<mapsto> [1], 1 \<mapsto> []], nextObject := 2, ticks := 4\<rparr>"

definition diaryUpdated :: world where
  "diaryUpdated = diary\<lparr>
     events := [row 1 (newEventData (js ''a'') (js ''re'') bash)],
     embeddingDB := [js ''bash'' \<mapsto> \<lparr>embeddings = [], metadata = 1\<rparr>],
     metaHeap := [0 \<mapsto> [], 1 \<mapsto> [1]], nextObject := 2, ticks := 6,
     trace := [EventUpdate 1]\<rparr>"

text \<open>
  The same store with the message \<open>a\<close> processed by the older model \<open>M1\<close>; what
  \<open>processMail\<close> holds for the announcement; the worlds after the events of \<open>a\<close> have been
  invalidated, and after the whole invocation when the extraction finds no event.
\<close>

definition stale :: world where
  "stale = diary\<lparr>emails := [stored (js ''M1'')]\<rparr>"

definition announced :: locals where
  "announced = \<lparr>l_messageId = js ''a'', l_senderAddress = js ''x@y'', l_senderName = js ''x@y'',
     l_subject = js ''party'', l_html = js ''hi'', l_text = js ''bcc to dorms'',
     l_receivedAt = 1, l_inReplyTo = None\<rparr>"

definition staleCleared :: world where
  "staleCleared = stale\<lparr>emails := [stored (js ''M2_PROCESSING'')], events := [], ticks := 6,
     trace := [EmailUpsert (js ''a''), EventDeleteMany (js ''a'')]\<rparr>"

definition staleEnd :: world where
  "staleEnd = stale\<lparr>emails := [stored (js ''M2'')], events := [],
     processingTasks := [js ''a'' \<mapsto> 0], resolved := {0}, nextDeferred := 1, ticks := 12,
     trace := [Registered (js ''a'') 0, EmailUpsert (js ''a''), EventDeleteMany (js ''a''),
               EmailUpdate (js ''a''), Resolved 0]\<rparr>"

text \<open>
  A store in which the message \<open>a\<close> is a reply to a message \<open>z\<close> that is not stored; the
  world after the reply \<open>b\<close> has been processed there, and the world after the reply
  without a keyword has been processed in the empty store.
\<close>

definition dangling :: world where
  "dangling = world0\<lparr>emails := [(stored (js ''M2''))\<lparr>e_inReplyToId := Some (js ''z'')\<rparr>]\<rparr>"

definition danglingEnd :: world where
  "danglingEnd =
     dangling\<lparr>processingTasks := [js ''b'' \<mapsto> 0], resolved := {0}, nextDeferred := 1,
              ticks := 6, trace := [Registered (js ''b'') 0, Resolved 0]\<rparr>"

definition chatterOrphanEnd :: world where
  "chatterOrphanEnd =
     world0\<lparr>ignoredEmails := [\<lparr>i_scrapedBy = js ''me'', i_uid = 7, i_receivedAt = 2\<rparr>],
            processingTasks := [js ''b'' \<mapsto> 0], resolved := {0}, nextDeferred := 1,
            ticks := 4,
            trace := [Registered (js ''b'') 0, IgnoredUpsert (js ''me'') 7, Resolved 0]\<rparr>"

text \<open>The world after the announcement has been processed in the empty store, with the
  party extracted from it; the announcement with an empty list of sender addresses.\<close>

definition announcedEnd :: world where
  "announcedEnd =
     world0\<lparr>emails := [stored (js ''M2_PROCESSING'')],
            senders := [\<lparr>s_email = js ''x@y'', s_name = js ''x@y''\<rparr>],
            events := [row 1 (newEventData (js ''a'') (js ''bcc to dorms'') party)],
            nextEventId := 2,
            embeddingDB := [js ''party'' \<mapsto> \<lparr>embeddings = [], metadata = 1\<rparr>],
            metaHeap := [0 \<mapsto> [], 1 \<mapsto> [1]], nextObject := 2,
            processingTasks := [js ''a'' \<mapsto> 0], resolved := {0}, nextDeferred := 1,
            inflight := [(js ''a'', js ''M2'')], ticks := 12,
            trace := [Registered (js ''a'') 0, EmailUpsert (js ''a''), EventCreate 1,
                      Resolved 0]\<rparr>"

definition senderless :: parsedMail where
  "senderless = announcement\<lparr>p_from := Some []\<rparr>"

text \<open>
  Texts for the classifier: a keyword in upper case with a tab, a line feed and an
  ideographic space between its words; a keyword with two of its words run together; a
  keyword that ends in the Kelvin sign.
\<close>

definition shouted :: jsstring where
  "shouted = js ''BCC'' @ [0x9, 0xA] @ js ''To'' @ [0x3000] @ js ''DORMS''"

definition glued :: jsstring where
  "glued = js ''bccto dorms''"

definition kelvin :: jsstring where
  "kelvin = js ''for bc-tal'' @ [0x212A]"

text \<open>
  An environment in which the handle 9 of the message \<open>a\<close> is resolved, and one in which
  another task with the id \<open>a\<close> has registered its handle 11 under this id and resolved
  it, while the handle 9 is not resolved; the reply as it is stored, and the worlds in
  which the invocation for the reply ends in these environments.
\<close>

definition releasing :: env where
  "releasing = \<lparr>interleave = (\<lambda>n w. w\<lparr>processingTasks := (processingTasks w)(js ''a'' \<mapsto> 9),
                                         resolved := insert 9 (resolved w)\<rparr>),
                rejects = (\<lambda>n. False)\<rparr>"

definition overwriting :: env where
  "overwriting = \<lparr>interleave = (\<lambda>n w. w\<lparr>processingTasks := (processingTasks w)(js ''a'' \<mapsto> 11),
                                           resolved := insert 11 (resolved w) - {9}\<rparr>),
                  rejects = (\<lambda>n. False)\<rparr>"

definition replyStored :: email where
  "replyStored = \<lparr>e_messageId = js ''b'', e_scrapedBy = js ''me'', e_uid = 7,
     e_senderEmail = js ''x@y'', e_subject = js ''re'', e_body = js ''ok'',
     e_receivedAt = 2, e_modelName = js ''M2_PROCESSING'', e_inReplyToId = Some (js ''a'')\<rparr>"

definition replyReleased :: world where
  "replyReleased =
     waiting\<lparr>emails := [stored (js ''M2''), replyStored],
             senders := [\<lparr>s_email = js ''x@y'', s_name = js ''x@y''\<rparr>],
             processingTasks := [js ''b'' \<mapsto> 10, js ''a'' \<mapsto> 9], resolved := {10, 9},
             nextDeferred := 11, inflight := [(js ''b'', js ''M2'')], ticks := 11,
             trace := [Registered (js ''b'') 10, Awaited 9, EmailUpsert (js ''b''), Resolved 10]\<rparr>"

definition replyOverwritten :: world where
  "replyOverwritten =
     waiting\<lparr>emails := [stored (js ''M2''), replyStored],
             senders := [\<lparr>s_email = js ''x@y'', s_name = js ''x@y''\<rparr>],
             processingTasks := [js ''b'' \<mapsto> 10, js ''a'' \<mapsto> 11], resolved := {10, 11},
             nextDeferred := 11, inflight := [(js ''b'', js ''M2'')], ticks := 11,
             trace := [Registered (js ''b'') 10, Awaited 11, EmailUpsert (js ''b''), Resolved 10]\<rparr>"

section \<open>Properties\<close>

subsection \<open>The classifier\<close>

lemma ws_canon: "isWhiteSpace x \<Longrightarrow> canonicalize x = x"
  by (auto simp: isWhiteSpace_def canonicalize_def)

lemma canon_not_ws: "\<not> isWhiteSpace x \<Longrightarrow> \<not> isWhiteSpace (canonicalize x)"
  by (auto simp: isWhiteSpace_def canonicalize_def)

lemma ws_32: "isWhiteSpace 0x20"
  by (simp add: isWhiteSpace_def)

lemma plain_not_32: "plain c \<Longrightarrow> c \<noteq> 0x20"
  using ws_32 by (auto simp: plain_def)

lemma lit_ws_mismatch: "plain c \<Longrightarrow> isWhiteSpace x \<Longrightarrow> canonicalize x \<noteq> canonicalize c"
  by (metis plain_def ws_canon)

lemma phrase_ok_hd: "phrase_ok k \<Longrightarrow> \<exists>c r. k = c # r \<and> plain c"
  by (induction k rule: phrase_ok.induct) auto

lemma skip_spaces:
  assumes "r = Chr c # r'" "plain c"
  shows "(matchesAt (Spaces # r) t \<or> matchesAt r t) = matchesAt r (dropWhile isWhiteSpace t)"
  using assms
proof (induction t)
  case Nil
  then show ?case by simp
next
  case (Cons y u)
  then show ?case
    by (auto simp: lit_ws_mismatch)
qed

lemma compile_hd:
  "phrase_ok r \<Longrightarrow> \<exists>c r'. compile_keyword r = Chr c # r' \<and> plain c"
  using plain_not_32 by (induction r rule: phrase_ok.induct) auto

lemma canon_not_32: "\<not> isWhiteSpace y \<Longrightarrow> canonicalize y \<noteq> 0x20"
  using canon_not_ws ws_32 by metis

lemma match_spaces:
  assumes "phrase_ok r"
    and IH: "\<And>u. matchesAt (compile_keyword r) u = prefix r (folded u)"
  shows "matchesAt (Spaces # compile_keyword r) t = prefix (0x20 # r) (folded t)"
proof (cases t)
  case Nil
  then show ?thesis by simp
next
  case (Cons y u)
  obtain c r' where cr: "compile_keyword r = Chr c # r'" "plain c"
    using compile_hd[OF assms(1)] by blast
  show ?thesis
  proof (cases "isWhiteSpace y")
    case True
    have "matchesAt (Spaces # compile_keyword r) (y # u)
          = matchesAt (compile_keyword r) (dropWhile isWhiteSpace u)"
      using True skip_spaces[OF cr, of u] by simp
    also have "\<dots> = prefix r (folded (dropWhile isWhiteSpace u))"
      by (rule IH)
    finally show ?thesis using True Cons by simp
  next
    case False
    then show ?thesis using Cons canon_not_32[OF False] by auto
  qed
qed

lemma dropWhile_spaces_ok: "phrase_ok r \<Longrightarrow> dropWhile (\<lambda>d. d = 0x20) r = r"
  using phrase_ok_hd[of r] plain_not_32 by auto

lemma match_prefix:
  "phrase_ok k \<Longrightarrow> matchesAt (compile_keyword k) t = prefix k (folded t)"
proof (induction k arbitrary: t rule: phrase_ok.induct)
  case 1
  then show ?case by simp
next
  case (2 c)
  then show ?case
    using plain_not_32[of c] by (cases t) (auto simp: plain_def ws_canon)
next
  case (3 c d r)
  have pc: "plain c" and c32: "c \<noteq> 0x20"
    using "3.prems" plain_not_32 by auto
  show ?case
  proof (cases "d = 0x20")
    case True
    then have okr: "phrase_ok r" using "3.prems" by simp
    have IH: "\<And>u. matchesAt (compile_keyword r) u = prefix r (folded u)"
      using "3.IH"(1)[OF True okr] .
    have comp: "compile_keyword (c # d # r) = Chr c # Spaces # compile_keyword r"
      using c32 True dropWhile_spaces_ok[OF okr] by simp
    show ?thesis
    proof (cases t)
      case Nil
      then show ?thesis by (simp add: comp)
    next
      case (Cons x t')
      show ?thesis
      proof (cases "isWhiteSpace x")
        case True
        then show ?thesis
          using Cons comp pc c32 lit_ws_mismatch[OF pc True] by auto
      next
        case False
        then show ?thesis
          using Cons comp pc match_spaces[OF okr IH, of t'] \<open>d = 0x20\<close>
          by (auto simp: plain_def)
      qed
    qed
  next
    case False
    then have okr: "phrase_ok (d # r)" using "3.prems" by simp
    have IH: "\<And>u. matchesAt (compile_keyword (d # r)) u = prefix (d # r) (folded u)"
      using "3.IH"(2)[OF False okr] .
    have comp: "compile_keyword (c # d # r) = Chr c # compile_keyword (d # r)"
      using c32 by simp
    show ?thesis
    proof (cases t)
      case Nil
      then show ?thesis by (simp add: comp)
    next
      case (Cons x t')
      show ?thesis
      proof (cases "isWhiteSpace x")
        case True
        then show ?thesis
          using Cons comp pc c32 lit_ws_mismatch[OF pc True] by auto
      next
        case False
        then show ?thesis
          using Cons pc IH[of t'] by (auto simp: comp plain_def simp del: compile_keyword.simps)
      qed
    qed
  qed
qed

lemma test_skip_ws:
  assumes "phrase_ok k"
  shows "regex_test [compile_keyword k] t = regex_test [compile_keyword k] (dropWhile isWhiteSpace t)"
proof -
  obtain c r' where cr: "compile_keyword k = Chr c # r'" "plain c"
    using compile_hd[OF assms] by blast
  show ?thesis
    by (induction t) (auto simp: cr lit_ws_mismatch)
qed

lemma test_one:
  assumes "phrase_ok k"
  shows "regex_test [compile_keyword k] t = sublist k (folded t)"
proof (induction t rule: folded.induct)
  case 1
  obtain c r' where cr: "compile_keyword k = Chr c # r'" "plain c"
    using compile_hd[OF assms] by blast
  obtain c' r'' where "k = c' # r''" using phrase_ok_hd[OF assms] by blast
  then show ?case using cr by simp
next
  case (2 c cs)
  obtain c' r'' where k: "k = c' # r''" "plain c'" using phrase_ok_hd[OF assms] by blast
  show ?case
  proof (cases "isWhiteSpace c")
    case True
    have "regex_test [compile_keyword k] (c # cs)
          = regex_test [compile_keyword k] (dropWhile isWhiteSpace cs)"
      using test_skip_ws[OF assms, of "c # cs"] True by simp
    also have "\<dots> = sublist k (folded (dropWhile isWhiteSpace cs))"
      using "2.IH"(1)[OF True] .
    also have "\<dots> = sublist k (folded (c # cs))"
      using True k plain_not_32[OF k(2)] by (simp add: sublist_Cons_right)
    finally show ?thesis .
  next
    case False
    show ?thesis
      using False "2.IH"(2)[OF False] match_prefix[OF assms, of "c # cs"]
      by (simp add: sublist_Cons_right)
  qed
qed

lemma test_alts:
  "regex_test alts t = list_ex (\<lambda>r. regex_test [r] t) alts"
  by (induction t) (auto simp: list_ex_iff)

lemma whiteSpaceChars_ranges:
  "whiteSpaceChars =
     [0x9..<0xE] @ [0x20, 0xA0, 0x1680] @ [0x2000..<0x200B] @
     [0x2028, 0x2029, 0x202F, 0x205F, 0x3000, 0xFEFF]"
  by (simp add: whiteSpaceChars_def)

lemma isSpace_isWhiteSpace: "isSpace c = isWhiteSpace c"
  unfolding isSpace_def isWhiteSpace_def whiteSpaceChars_ranges set_append set_upt
  by auto

lemma upperCase_range: "upperCase = [0x41..<0x5B]"
  by (simp add: upperCase_def js_def)

lemma lowerCase_range: "lowerCase = map (\<lambda>c. c + 0x20) [0x41..<0x5B]"
  by (simp add: lowerCase_def js_def)

lemma letters:
  "map_of (zip upperCase lowerCase) c =
     (if 0x41 \<le> c \<and> c \<le> 0x5A then Some (c + 0x20) else None)"
  unfolding upperCase_range lowerCase_range map_of_zip_map set_upt
  by auto

lemma foldCase_canonicalize: "foldCase c = canonicalize c"
  unfolding foldCase_def canonicalize_def
  by (simp add: letters map_add_def)

lemma dropWhile_isSpace: "dropWhile isSpace cs = dropWhile isWhiteSpace cs"
  by (rule arg_cong[of _ _ "\<lambda>p. dropWhile p cs"]) (simp add: fun_eq_iff isSpace_isWhiteSpace)

lemma normalise_folded: "normalise t = folded t"
  by (induction t rule: normalise.induct)
     (simp_all add: isSpace_isWhiteSpace foldCase_canonicalize dropWhile_isSpace)

text \<open>
  Claim C9. \<open>isDormspam\<close> is a function of its text alone, and it holds exactly for the
  texts that contain one of the keywords, where an upper-case letter reads as its
  lower-case letter and every run of white space characters as one separator.
\<close>

theorem isDormspam_iff:
  "isDormspam t \<longleftrightarrow> (\<exists>k \<in> set dormspamKeywords. containsPhrase t k)"
proof -
  have ok: "list_all phrase_ok dormspamKeywords"
    by (simp add: dormspamKeywords_def js_def plain_def isWhiteSpace_def canonicalize_def)
  have "isDormspam t = list_ex (\<lambda>k. regex_test [compile_keyword k] t) dormspamKeywords"
    unfolding isDormspam_def isDormspamRegex_def
    by (subst test_alts) (simp add: list_ex_iff)
  also have "\<dots> = list_ex (\<lambda>k. containsPhrase t k) dormspamKeywords"
    using ok unfolding containsPhrase_def normalise_folded list_ex_iff list_all_iff
    by (auto simp: test_one)
  finally show ?thesis by (simp add: list_ex_iff)
qed

text \<open>The keyword in upper case with other white space is found; the words run together
  are not; the Kelvin sign reads as \<open>k\<close>.\<close>

lemmas classifier_defs = isDormspam_def isDormspamRegex_def dormspamKeywords_def js_def
  canonicalize_def isWhiteSpace_def

lemma shouted_dormspam: "isDormspam shouted"
  by (simp add: classifier_defs shouted_def)

lemma glued_not_dormspam: "\<not> isDormspam glued"
  by (simp add: classifier_defs glued_def)

lemma kelvin_dormspam: "isDormspam kelvin"
  by (simp add: classifier_defs kelvin_def)

lemma shouted_normalised: "normalise shouted = js ''bcc to dorms''"
  by (simp add: shouted_def js_def isSpace_def whiteSpaceChars_def foldCase_def upperCase_def
      lowerCase_def)

theorem isDormspam_iff_witness:
  "isDormspam shouted \<and> normalise shouted = js ''bcc to dorms'' \<and>
   (\<exists>k \<in> set dormspamKeywords. containsPhrase shouted k) \<and>
   \<not> isDormspam glued \<and> \<not> (\<exists>k \<in> set dormspamKeywords. containsPhrase glued k) \<and>
   isDormspam kelvin \<and> (\<exists>k \<in> set dormspamKeywords. containsPhrase kelvin k)"
  using isDormspam_iff[of shouted] isDormspam_iff[of glued] isDormspam_iff[of kelvin]
    shouted_dormspam glued_not_dormspam kelvin_dormspam shouted_normalised
  by simp

subsection \<open>The merge test\<close>

lemma includes_str_sublist: "includes_str s sub = sublist sub s"
  by (induction s) (auto simp: sublist_Cons_right)

lemma minute_of_day:
  fixes t :: int
  shows "(t div 3600000 mod 24 = 0 \<and> t div 60000 mod 60 = 0) = (t mod 86400000 < 60000)"
proof -
  define m where "m = t div 60000"
  have hours: "t div 3600000 = m div 60"
    unfolding m_def using zdiv_zmult2_eq[of 60 t 60000] by simp
  have day: "t mod 86400000 = 60000 * (m mod 1440) + t mod 60000"
    unfolding m_def using zmod_zmult2_eq[of 1440 t 60000] by simp
  have m1440: "m mod 1440 = 60 * (m div 60 mod 24) + m mod 60"
    using zmod_zmult2_eq[of 24 m 60] by simp
  have r: "0 \<le> t mod 60000" "t mod 60000 < 60000" "0 \<le> m mod 1440"
          "0 \<le> m mod 60" "0 \<le> m div 60 mod 24"
    by simp_all
  have "(t mod 86400000 < 60000) = (m mod 1440 = 0)"
    using day r by auto
  also have "\<dots> = (m div 60 mod 24 = 0 \<and> m mod 60 = 0)"
    using m1440 r by auto
  finally have "(m div 60 mod 24 = 0 \<and> m mod 60 = 0) = (t mod 86400000 < 60000)"
    by (rule sym)
  then show ?thesis
    unfolding hours unfolding m_def .
qed

lemma isAllDay_marker: "isAllDay h d = allDayMarker h d"
  unfolding isAllDay_def allDayMarker_def getHours_def getMinutes_def
  by (rule minute_of_day)

lemma sameDate_iff: "sameDate h a b = dateCompatible h a b"
  unfolding sameDate_def dateCompatible_def isAllDay_marker getTime_def by auto

lemma sameLocation_iff: "sameLocation h a b = locationCompatible h a b"
  unfolding sameLocation_def locationCompatible_def includes_str_sublist by auto

text \<open>
  Claim C5, amended. \<open>mergeEvents\<close> returns \<open>unmergable\<close> exactly when the date test or
  the location test fails; for two events that both have an owning message it returns
  \<open>former\<close> or \<open>latter\<close> exactly when both tests pass.
\<close>

theorem mergeEvents_mergeable_iff:
  "(mergeEvents h a b = Inr Unmergable \<longleftrightarrow> \<not> (dateCompatible h a b \<and> locationCompatible h a b)) \<and>
   (ev_fromEmail a \<noteq> None \<and> ev_fromEmail b \<noteq> None \<longrightarrow>
      (mergeEvents h a b \<in> {Inr Former, Inr Latter} \<longleftrightarrow>
         dateCompatible h a b \<and> locationCompatible h a b))"
  unfolding mergeEvents_def sameDate_iff sameLocation_iff
  by (auto split: option.splits)

lemma lecture_compatible:
  "dateCompatible host0 lecture lectureSeries \<and> locationCompatible host0 lecture lectureSeries"
  by (simp add: dateCompatible_def locationCompatible_def allDayMarker_def getDay_def
      localTime_def host0_def lecture_def lectureSeries_def asciiLower_def js_def)

theorem mergeEvents_mergeable_iff_witness:
  "ev_fromEmail lecture \<noteq> None \<and> ev_fromEmail lectureSeries \<noteq> None \<and>
   dateCompatible host0 lecture lectureSeries \<and> locationCompatible host0 lecture lectureSeries \<and>
   mergeEvents host0 lecture lectureSeries \<in> {Inr Former, Inr Latter}"
  using mergeEvents_mergeable_iff[of host0 lecture lectureSeries] lecture_compatible
  by (simp add: lecture_def lectureSeries_def)

text \<open>The claim as stated fails for a stored event without an owning message: both tests
  pass, and \<open>mergeEvents\<close> throws instead of returning a decision.\<close>

theorem mergeEvents_orphan_counterexample:
  "dateCompatible host0 lecture orphan \<and> locationCompatible host0 lecture orphan \<and>
   mergeEvents host0 lecture orphan = Inl TypeError"
  by (simp add: mergeEvents_def sameDate_iff sameLocation_iff dateCompatible_def
      locationCompatible_def allDayMarker_def getDay_def
      localTime_def host0_def lecture_def orphan_def asciiLower_def js_def)

subsection \<open>The effects of an invocation\<close>


lemma emitsOnlyI:
  "(\<And>w r w'. m w = Some (r, w') \<Longrightarrow> \<exists>es. trace w' = trace w @ es \<and> list_all P es) \<Longrightarrow> emitsOnly P m"
  by (simp add: emitsOnly_def)

lemma emitsOnlyD:
  "emitsOnly P m \<Longrightarrow> m w = Some (r, w') \<Longrightarrow> \<exists>es. trace w' = trace w @ es \<and> list_all P es"
  by (simp add: emitsOnly_def)

lemma emitsOnly_ret: "emitsOnly P (ret a)"
  by (simp add: emitsOnly_def ret_def)

lemma emitsOnly_throw: "emitsOnly P (throw e)"
  by (simp add: emitsOnly_def throw_def)

lemma emitsOnly_andThen_run:
  assumes m: "emitsOnly P m"
    and k: "\<And>a w w'. m w = Some (Returned a, w') \<Longrightarrow> emitsOnly P (k a)"
  shows "emitsOnly P (andThen m k)"
proof (rule emitsOnlyI)
  fix w r w'
  assume run: "andThen m k w = Some (r, w')"
  then obtain r1 w1 where m1: "m w = Some (r1, w1)"
    by (auto simp: andThen_def split: option.splits)
  from emitsOnlyD[OF m m1] obtain es1 where es1: "trace w1 = trace w @ es1" "list_all P es1"
    by blast
  show "\<exists>es. trace w' = trace w @ es \<and> list_all P es"
  proof (cases r1)
    case (Returned a)
    then have "k a w1 = Some (r, w')" using run m1 by (simp add: andThen_def)
    from emitsOnlyD[OF k[OF m1[unfolded Returned]] this] obtain es2
      where "trace w' = trace w1 @ es2" "list_all P es2" by blast
    then show ?thesis using es1 by auto
  next
    case (Thrown e)
    then show ?thesis using run m1 es1 by (auto simp: andThen_def)
  next
    case Suspended
    then show ?thesis using run m1 es1 by (auto simp: andThen_def)
  qed
qed

lemma emitsOnly_andThen:
  "emitsOnly P m \<Longrightarrow> (\<And>a. emitsOnly P (k a)) \<Longrightarrow> emitsOnly P (andThen m k)"
  by (rule emitsOnly_andThen_run)

lemma trace_yield [simp]: "trace (yield env w) = trace w"
  by (simp add: yield_def)

lemma trace_completed [simp]: "trace (snd (completed rw)) = trace (snd rw)"
  by (auto simp: completed_def split: prod.splits sum.splits)

lemma emitsOnly_sync: "queryEmitsOnly P q \<Longrightarrow> emitsOnly P (sync q)"
  unfolding emitsOnly_def queryEmitsOnly_def sync_def
  by (metis option.inject snd_conv trace_completed)

lemma awaitQuery_emits:
  assumes "queryEmitsOnly P q"
  shows "\<exists>es. trace (snd (awaitQuery env q w)) = trace w @ es \<and> list_all P es"
proof (cases "rejects env (ticks w)")
  case True
  then show ?thesis by (simp add: awaitQuery_def)
next
  case False
  from assms obtain es where "trace (snd (q (yield env w))) = trace (yield env w) @ es" "list_all P es"
    unfolding queryEmitsOnly_def by blast
  then show ?thesis using False by (auto simp: awaitQuery_def split: prod.splits)
qed

lemma emitsOnly_await: "queryEmitsOnly P q \<Longrightarrow> emitsOnly P (await env q)"
  unfolding emitsOnly_def await_def
  by (metis awaitQuery_emits option.inject snd_conv trace_completed)

lemma emitsOnly_awaitDeferred: "P (Awaited d) \<Longrightarrow> emitsOnly P (awaitDeferred env d)"
  by (auto simp: emitsOnly_def awaitDeferred_def emit_def split: if_splits)

lemma queryEmitsOnly_pure [simp]: "queryEmitsOnly P (\<lambda>w. (r w, w))"
  by (simp add: queryEmitsOnly_def)

lemma queryEmitsOnly_email_findUnique [simp]: "queryEmitsOnly P (email_findUnique mid)"
  by (simp add: queryEmitsOnly_def email_findUnique_def)

lemma queryEmitsOnly_event_findUnique [simp]: "queryEmitsOnly P (event_findUnique i)"
  by (simp add: queryEmitsOnly_def event_findUnique_def)

lemma queryEmitsOnly_event_findFirst [simp]: "queryEmitsOnly P (event_findFirst root)"
  by (simp add: queryEmitsOnly_def event_findFirst_def)

lemma queryEmitsOnly_ignoredEmail_upsert:
  "P (IgnoredUpsert sb u) \<Longrightarrow> queryEmitsOnly P (ignoredEmail_upsert sb u rcv)"
  by (simp add: queryEmitsOnly_def ignoredEmail_upsert_def emit_def)

lemma queryEmitsOnly_email_upsert:
  "P (EmailUpsert mid) \<Longrightarrow> queryEmitsOnly P (email_upsert mid sb u addr nm subj html rcv mn irt)"
  by (auto simp: queryEmitsOnly_def email_upsert_def emit_def split: option.splits)

lemma queryEmitsOnly_email_update:
  "P (EmailUpdate mid) \<Longrightarrow> queryEmitsOnly P (email_update mid mn)"
  by (auto simp: queryEmitsOnly_def email_update_def emit_def setModelName_def split: option.splits)

lemma queryEmitsOnly_event_deleteMany:
  "P (EventDeleteMany root) \<Longrightarrow> queryEmitsOnly P (event_deleteMany root)"
  by (simp add: queryEmitsOnly_def event_deleteMany_def emit_def)

lemma queryEmitsOnly_event_update:
  "P (EventUpdate i) \<Longrightarrow> queryEmitsOnly P (event_update i d)"
  by (simp add: queryEmitsOnly_def event_update_def emit_def)

lemma queryEmitsOnly_event_create:
  "(\<And>i. P (EventCreate i)) \<Longrightarrow> queryEmitsOnly P (event_create d)"
  by (simp add: queryEmitsOnly_def event_create_def emit_def)


lemma queryEmitsOnly_silent:
  "(\<And>w. trace (f w) = trace w) \<Longrightarrow> queryEmitsOnly P (\<lambda>w. (r w, f w))"
  by (simp add: queryEmitsOnly_def)

lemma trace_index_ops [simp]:
  "trace (upsertEmbedding label v ids w) = trace w"
  "trace (setEventIds m ids w) = trace w"
  "trace (deleteEmbedding label w) = trace w"
  "trace (reattach title v eventId label m w) = trace w"
  "trace (issue mid mn w) = trace w"
  by (simp_all add: upsertEmbedding_def setEventIds_def deleteEmbedding_def reattach_def
      issue_def Let_def)

lemma emitsOnly_forEventIds:
  assumes "\<And>i. P (EventUpdate i)"
  shows "emitsOnly P (forEventIds env host deps event rcv d label m ids)"
proof (induction ids)
  case Nil
  show ?case by (simp add: emitsOnly_ret)
next
  case (Cons eventId ids)
  show ?case
    unfolding forEventIds.simps
    by (intro emitsOnly_andThen emitsOnly_await)
       (auto intro!: emitsOnly_andThen emitsOnly_await emitsOnly_sync emitsOnly_ret emitsOnly_throw
          queryEmitsOnly_event_update queryEmitsOnly_silent assms Cons
          split: option.splits sum.splits merge_result.splits)
qed

lemma emitsOnly_forNeighbors:
  assumes "\<And>i. P (EventUpdate i)"
  shows "emitsOnly P (forNeighbors env host deps event rcv d knn)"
proof (induction knn)
  case Nil
  show ?case by (simp add: emitsOnly_ret)
next
  case (Cons n knn)
  obtain label distance where n: "n = (label, distance)" by (cases n)
  show ?case
    unfolding n forNeighbors.simps
    by (intro emitsOnly_andThen emitsOnly_sync)
       (auto intro!: emitsOnly_andThen emitsOnly_ret emitsOnly_forEventIds queryEmitsOnly_silent
          assms Cons split: option.splits)
qed

lemma emitsOnly_processEvent:
  assumes "\<And>i. P (EventUpdate i)" "\<And>i. P (EventCreate i)"
  shows "emitsOnly P (processEvent env host deps rcv root txt event)"
  unfolding processEvent_def
  by (intro emitsOnly_andThen emitsOnly_await emitsOnly_sync emitsOnly_forNeighbors)
     (auto intro!: emitsOnly_andThen emitsOnly_await emitsOnly_sync emitsOnly_ret
        queryEmitsOnly_silent queryEmitsOnly_event_create assms split: option.splits)

lemma emitsOnly_forEvents:
  assumes "\<And>i. P (EventUpdate i)" "\<And>i. P (EventCreate i)"
  shows "emitsOnly P (forEvents env host deps rcv root txt found)"
  by (induction found)
     (auto intro!: emitsOnly_andThen emitsOnly_ret emitsOnly_processEvent assms)

lemma emitsOnly_markProcessed:
  "P (EmailUpdate mid) \<Longrightarrow> emitsOnly P (markProcessedByCurrentModel env deps mid)"
  unfolding markProcessedByCurrentModel_def
  by (intro emitsOnly_await queryEmitsOnly_email_update)

lemma emitsOnly_ignore:
  "P (IgnoredUpsert sb u) \<Longrightarrow> emitsOnly P (ignoreThisEmailForever env sb u rcv)"
  unfolding ignoreThisEmailForever_def
  by (intro emitsOnly_await queryEmitsOnly_ignoredEmail_upsert)

lemma emitsOnly_storeAndInvalidate:
  assumes "\<And>mid. P (EmailUpsert mid)" "\<And>mid. P (EmailUpdate mid)" "\<And>mid. P (EventDeleteMany mid)"
  shows "emitsOnly P (storeAndInvalidate env deps sb u l root)"
  unfolding storeAndInvalidate_def
  by (intro emitsOnly_andThen emitsOnly_await queryEmitsOnly_email_upsert assms)
     (auto intro!: emitsOnly_andThen emitsOnly_await emitsOnly_ret emitsOnly_markProcessed
        queryEmitsOnly_event_deleteMany assms split: option.splits)

lemma emitsOnly_extractAndMerge:
  assumes "\<And>mid. P (EmailUpdate mid)" "\<And>i. P (EventUpdate i)" "\<And>i. P (EventCreate i)"
  shows "emitsOnly P (extractAndMerge env host deps l root)"
  unfolding extractAndMerge_def
  by (intro emitsOnly_andThen emitsOnly_await queryEmitsOnly_silent)
     (auto intro!: emitsOnly_andThen emitsOnly_sync emitsOnly_ret emitsOnly_markProcessed
        emitsOnly_forEvents queryEmitsOnly_silent assms split: extraction.splits)

lemma emitsOnly_storeAndExtract:
  assumes "\<And>x. recordWrite x \<Longrightarrow> P x"
  shows "emitsOnly P (storeAndExtract env host deps sb u l root)"
  unfolding storeAndExtract_def
  by (intro emitsOnly_andThen emitsOnly_storeAndInvalidate)
     (auto intro!: emitsOnly_ret emitsOnly_extractAndMerge assms simp: recordWrite_def
        split: option.splits)

lemma awaitQuery_silent:
  "(\<And>v. trace (snd (q v)) = trace v) \<Longrightarrow> trace (snd (awaitQuery env q w)) = trace w"
  by (auto simp: awaitQuery_def split: prod.splits) (metis snd_conv trace_yield)

lemma walkRoot_trace:
  assumes "walkRoot env root w = Some y"
  shows "trace (snd y) = trace w"
proof (rule walkRoot.raw_induct[where P = "\<lambda>env root w y. trace (snd y) = trace w", OF _ assms])
  fix walk env root w y
  assume IH: "\<And>env root w y. walk env root w = Some y \<Longrightarrow> trace (snd y) = trace w"
    and body: "(case e_inReplyToId root of
                  None \<Rightarrow> Some (Returned (Inr root), w)
                | Some parent \<Rightarrow>
                    (case awaitQuery env (email_findUnique parent) w of
                       (Inl e, w') \<Rightarrow> Some (Thrown e, w')
                     | (Inr None, w') \<Rightarrow> Some (Returned (Inl DORMSPAM_BUT_ROOT_NOT_IN_DB), w')
                     | (Inr (Some nextRoot), w') \<Rightarrow> walk env nextRoot w')) = Some y"
  show "trace (snd y) = trace w"
  proof (cases "e_inReplyToId root")
    case None
    then show ?thesis using body by auto
  next
    case (Some parent)
    have t: "trace (snd (awaitQuery env (email_findUnique parent) w)) = trace w"
      by (rule awaitQuery_silent) (simp add: email_findUnique_def)
    show ?thesis
      using body Some t IH
      by (auto split: prod.splits sum.splits option.splits)
  qed
qed

lemma emitsOnly_walkRoot: "emitsOnly P (walkRoot env root)"
  by (rule emitsOnlyI) (use walkRoot_trace in fastforce)

lemma emitsOnly_awaitParent: "(\<And>d. P (Awaited d)) \<Longrightarrow> emitsOnly P (awaitParent env parent)"
  unfolding awaitParent_def emitsOnly_def
  by (auto simp: awaitDeferred_def emit_def split: option.splits if_splits)

lemma emitsOnly_resolveRoot:
  "(\<And>d. P (Awaited d)) \<Longrightarrow> emitsOnly P (resolveRoot env parsed mid)"
  unfolding resolveRoot_def
  by (auto intro!: emitsOnly_andThen emitsOnly_await emitsOnly_ret emitsOnly_walkRoot
        emitsOnly_awaitParent split: option.splits sum.splits)


lemma emitsOnly_classifyAndResolve:
  assumes "P (IgnoredUpsert sb u)"
    and "emitsOnly P (resolveRoot env parsed (l_messageId l))"
    and "\<And>root w w'. resolveRoot env parsed (l_messageId l) w = Some (Returned (Inr root), w') \<Longrightarrow>
           emitsOnly P (storeAndExtract env host deps sb u l root)"
  shows "emitsOnly P (classifyAndResolve env host deps sb u parsed l)"
  unfolding classifyAndResolve_def
proof (rule emitsOnly_andThen[OF emitsOnly_await[OF queryEmitsOnly_email_findUnique]])
  fix found :: "email option"
  have ign: "\<And>x :: processEmailResult.
               emitsOnly P (andThen (ignoreThisEmailForever env sb u (l_receivedAt l)) (\<lambda>_. ret x))"
    by (intro emitsOnly_andThen emitsOnly_ignore emitsOnly_ret assms(1))
  have go: "emitsOnly P
              (andThen (resolveRoot env parsed (l_messageId l))
                 (\<lambda>resolution. case resolution of
                      Inl result \<Rightarrow> ret result
                    | Inr root \<Rightarrow> storeAndExtract env host deps sb u l root))"
    by (rule emitsOnly_andThen_run[OF assms(2)])
       (auto intro!: emitsOnly_ret assms(3) split: sum.splits)
  show "emitsOnly P
          (if (case found of None \<Rightarrow> False | Some e \<Rightarrow> e_uid e \<noteq> u)
           then andThen (ignoreThisEmailForever env sb u (l_receivedAt l)) (\<lambda>_. ret MALFORMED_EMAIL)
           else if \<not> isDormspam (l_text l)
           then andThen (ignoreThisEmailForever env sb u (l_receivedAt l)) (\<lambda>_. ret NOT_DORMSPAM)
           else andThen (resolveRoot env parsed (l_messageId l))
                  (\<lambda>resolution. case resolution of
                       Inl result \<Rightarrow> ret result
                     | Inr rootMessageId \<Rightarrow>
                         storeAndExtract env host deps sb u l rootMessageId))"
    using ign go by simp
qed

lemma emitsOnly_checkAndProcess:
  assumes "P (IgnoredUpsert sb u)"
    and "\<And>mid. emitsOnly P (resolveRoot env parsed mid)"
    and "\<And>mid l root w w'. resolveRoot env parsed mid w = Some (Returned (Inr root), w') \<Longrightarrow>
           emitsOnly P (storeAndExtract env host deps sb u l root)"
  shows "emitsOnly P (checkAndProcess env host deps sb u parsed rcv)"
  unfolding checkAndProcess_def
  by (auto intro!: emitsOnly_andThen emitsOnly_ret emitsOnly_throw emitsOnly_ignore
        emitsOnly_classifyAndResolve assms
      split: option.splits list.splits prod.splits)

lemma emitsOnly_checkAndProcess_unresolved:
  "emitsOnly (\<lambda>x. \<not> isResolved x) (checkAndProcess env host deps sb u parsed rcv)"
  by (rule emitsOnly_checkAndProcess)
     (auto intro!: emitsOnly_resolveRoot emitsOnly_storeAndExtract
        simp: isResolved_def recordWrite_def split: effect.splits)

text \<open>
  Claim C6. In every environment, an invocation of \<open>processMail\<close> that exits, by a return
  or by a throw, resolves handles exactly once: its own handle, as its last effect, and
  this handle is the one it has registered under its message id; when it has exited the
  handle is resolved.
\<close>

theorem processMail_resolves_once:
  assumes run: "processMail env host deps sb u parsed w = Some (c, w')"
    and exits: "c \<noteq> Suspended"
  shows "filter isResolved (effectsOf w w') = [Resolved (nextDeferred w)] \<and>
         last (effectsOf w w') = Resolved (nextDeferred w) \<and>
         nextDeferred w \<in> resolved w' \<and>
         (case p_messageId parsed of
            None \<Rightarrow> True
          | Some mid \<Rightarrow> hd (effectsOf w w') = Registered mid (nextDeferred w))"
proof -
  define d where "d = nextDeferred w"
  define rcv where "rcv = (case p_date parsed of None \<Rightarrow> clock host | Some t \<Rightarrow> t)"
  define w0 where "w0 = w\<lparr>nextDeferred := Suc d\<rparr>"
  define w1 where "w1 = (case p_messageId parsed of None \<Rightarrow> w0 | Some mid \<Rightarrow> register mid d w0)"
  from run exits obtain w2 where body: "tryBlock env host deps sb u parsed rcv d w0 = Some (c, w2)"
    and fin: "w' = resolve d w2"
    unfolding processMail_def tryFinally_def d_def rcv_def w0_def
    by (auto split: option.splits completion.splits)
  from body have rest: "checkAndProcess env host deps sb u parsed rcv w1 = Some (c, w2)"
    unfolding tryBlock_def andThen_def sync_def w1_def completed_def by simp
  from emitsOnlyD[OF emitsOnly_checkAndProcess_unresolved rest]
  obtain es where es: "trace w2 = trace w1 @ es" "list_all (\<lambda>x. \<not> isResolved x) es"
    by blast
  define reg where "reg = (case p_messageId parsed of None \<Rightarrow> [] | Some mid \<Rightarrow> [Registered mid d])"
  have t1: "trace w1 = trace w @ reg"
    unfolding w1_def reg_def w0_def register_def emit_def by (simp split: option.splits)
  have regU: "filter isResolved reg = []"
    unfolding reg_def isResolved_def by (simp split: option.splits)
  have esU: "filter isResolved es = []"
    using es(2) by (induction es) auto
  have eff: "effectsOf w w' = reg @ es @ [Resolved d]"
    unfolding effectsOf_def fin resolve_def emit_def using es(1) t1 by simp
  show ?thesis
    unfolding eff d_def[symmetric]
    using regU esU
    by (auto simp: fin resolve_def emit_def isResolved_def reg_def split: option.splits)
qed

subsection \<open>Concrete runs\<close>

lemma yield_calm [simp]: "yield calm w = w\<lparr>ticks := Suc (ticks w)\<rparr>"
  by (simp add: yield_def calm_def)

lemma rejects_calm [simp]: "rejects calm n = False"
  by (simp add: calm_def)

lemma not_dormspam: "\<not> isDormspam (js ''see you'')"
  by (simp add: isDormspam_def isDormspamRegex_def dormspamKeywords_def js_def canonicalize_def)

lemma is_dormspam: "isDormspam (js ''bcc to dorms'')"
  by (simp add: isDormspam_def isDormspamRegex_def dormspamKeywords_def js_def canonicalize_def isWhiteSpace_def)

lemmas run_defs = processMail_def tryFinally_def tryBlock_def checkAndProcess_def
  classifyAndResolve_def localsOf_def andThen_def sync_def await_def awaitQuery_def completed_def
  ret_def throw_def ignoreThisEmailForever_def ignoredEmail_upsert_def email_findUnique_def
  findEmail_def register_def resolve_def emit_def resolveRoot_def awaitParent_def
  awaitDeferred_def js_def

lemmas classified = not_dormspam[unfolded js_def, simplified] is_dormspam[unfolded js_def, simplified]

lemma headless_run:
  "processMail calm host0 (deps0 x knn) (js ''me'') 7 headless world0 =
   Some (Thrown TypeError, headlessEnd)"
  by (simp add: run_defs headless_def announcement_def world0_def deps0_def headlessEnd_def)

text \<open>A message with an empty list of sender addresses: the invocation throws, and has
  resolved its handle.\<close>

theorem processMail_resolves_once_witness:
  "processMail calm host0 (deps0 (Admitted []) []) (js ''me'') 7 headless world0 =
     Some (Thrown TypeError, headlessEnd) \<and>
   Thrown TypeError \<noteq> (Suspended :: processEmailResult completion) \<and>
   effectsOf world0 headlessEnd = [Registered (js ''a'') 0, Resolved 0] \<and>
   filter isResolved (effectsOf world0 headlessEnd) = [Resolved 0] \<and>
   0 \<in> resolved headlessEnd"
  using processMail_resolves_once[OF headless_run[of "Admitted []" "[]"]]
    headless_run[of "Admitted []" "[]"]
  by (simp add: effectsOf_def world0_def headlessEnd_def)

subsection \<open>Runs of a reply\<close>

lemma findEmail_messageId: "findEmail mid w = Some e \<Longrightarrow> e_messageId e = mid"
  by (auto simp: findEmail_def find_Some_iff)

lemma chatter_waiting_run:
  "processMail calm host0 (deps0 x knn) (js ''me'') 7 chatter waiting =
   Some (Returned NOT_DORMSPAM, chatterEnd)"
  by (simp add: run_defs chatter_def reply_def waiting_def world0_def deps0_def someone_def
      stored_def classified chatterEnd_def)

lemma yield_stalling [simp]:
  "yield stalling w = w\<lparr>processingTasks := (processingTasks w)(js ''a'' \<mapsto> 9),
                        resolved := resolved w - {9}, ticks := Suc (ticks w)\<rparr>"
  by (simp add: yield_def stalling_def)

lemma rejects_stalling [simp]: "rejects stalling n = False"
  by (simp add: stalling_def)

lemma walkRoot_top:
  "e_inReplyToId root = None \<Longrightarrow> walkRoot env root w = Some (Returned (Inr root), w)"
  by (subst walkRoot.simps) simp

lemma reply_stalling_run:
  "processMail stalling host0 (deps0 x knn) (js ''me'') 7 reply waiting =
   Some (Suspended, replySuspended)"
  by (simp add: run_defs reply_def waiting_def world0_def deps0_def someone_def
      stored_def classified walkRoot_top replySuspended_def)

subsection \<open>The merge of one extracted event\<close>

lemma sameButTicks_refl [simp]: "sameButTicks w w" "sameButTicks w (w\<lparr>ticks := n\<rparr>)"
  unfolding sameButTicks_def by (metis world.surjective world.update_convs(13), blast)

lemma sameButTicks_trans: "sameButTicks a b \<Longrightarrow> sameButTicks b c \<Longrightarrow> sameButTicks a c"
  unfolding sameButTicks_def by auto

lemma sameButTicks_ticks [simp]: "sameButTicks (w\<lparr>ticks := n\<rparr>) w' = sameButTicks w w'"
  unfolding sameButTicks_def by auto

lemma await_calm:
  "await calm q w =
     Some (completed (case q (w\<lparr>ticks := Suc (ticks w)\<rparr>) of
                        (r, w') \<Rightarrow> (r, w'\<lparr>ticks := Suc (ticks w')\<rparr>)))"
  by (simp add: await_def awaitQuery_def)

lemma ticks_commute [simp]:
  "upsertEmbedding label v ids (w\<lparr>ticks := n\<rparr>) = (upsertEmbedding label v ids w)\<lparr>ticks := n\<rparr>"
  "setEventIds m ids (w\<lparr>ticks := n\<rparr>) = (setEventIds m ids w)\<lparr>ticks := n\<rparr>"
  "deleteEmbedding label (w\<lparr>ticks := n\<rparr>) = (deleteEmbedding label w)\<lparr>ticks := n\<rparr>"
  "eventIdsOf m (w\<lparr>ticks := n\<rparr>) = eventIdsOf m w"
  "getEmbedding label (w\<lparr>ticks := n\<rparr>) = getEmbedding label w"
  "findEmail mid (w\<lparr>ticks := n\<rparr>) = findEmail mid w"
  "findEvent i (w\<lparr>ticks := n\<rparr>) = findEvent i w"
  "fromEmail ev (w\<lparr>ticks := n\<rparr>) = fromEmail ev w"
  "connectable d (w\<lparr>ticks := n\<rparr>) = connectable d w"
  by (simp_all add: upsertEmbedding_def setEventIds_def deleteEmbedding_def eventIdsOf_def
      getEmbedding_def findEmail_def findEvent_def fromEmail_def connectable_def
      split: option.splits)

lemma reattach_ticks [simp]:
  "reattach title v i label m (w\<lparr>ticks := n\<rparr>) = (reattach title v i label m w)\<lparr>ticks := n\<rparr>"
  by (simp add: reattach_def Let_def)

lemma event_update_ticks:
  "event_update i d (w\<lparr>ticks := n\<rparr>) =
     (fst (event_update i d w), (snd (event_update i d w))\<lparr>ticks := n\<rparr>)"
  by (simp add: event_update_def emit_def)

lemma event_create_ticks:
  "event_create d (w\<lparr>ticks := n\<rparr>) =
     (fst (event_create d w), (snd (event_create d w))\<lparr>ticks := n\<rparr>)"
  by (simp add: event_create_def emit_def)

lemma event_findUnique_calm:
  "await calm (event_findUnique i) w =
     Some (Returned (map_option (\<lambda>ev. (ev, map_option e_receivedAt (fromEmail ev w))) (findEvent i w)),
           w\<lparr>ticks := Suc (Suc (ticks w))\<rparr>)"
  by (simp add: await_calm event_findUnique_def completed_def)

lemma pure_calm:
  "await calm (\<lambda>w. (Inr a, w)) w = Some (Returned a, w\<lparr>ticks := Suc (Suc (ticks w))\<rparr>)"
  by (simp add: await_calm completed_def)

lemma superseded_ticks [simp]:
  "superseded deps ev d i label m (w\<lparr>ticks := n\<rparr>) = (superseded deps ev d i label m w)\<lparr>ticks := n\<rparr>"
  "supersedable deps ev d i label m (w\<lparr>ticks := n\<rparr>) = supersedable deps ev d i label m w"
  by (simp_all add: superseded_def supersedable_def event_update_ticks)

lemma loopEnd_ticks [simp]:
  "loopEnd deps ev d label m ids (w\<lparr>ticks := n\<rparr>) c w' = loopEnd deps ev d label m ids w c w'"
  by (simp add: loopEnd_def split: completion.splits option.splits decision.splits)

lemma loopEnd_Cons:
  "loopEnd deps ev d label m ids w c w' \<Longrightarrow> loopEnd deps ev d label m (i # ids) w c w'"
  by (auto simp: loopEnd_def split: completion.splits option.splits decision.splits)

lemma forEventIds_calm:
  "forEventIds calm host deps ev rcv d label m ids w = Some (c, w') \<Longrightarrow>
   loopEnd deps ev d label m ids w c w'"
proof (induction ids arbitrary: w)
  case Nil
  then show ?case by (auto simp: ret_def loopEnd_def)
next
  case (Cons i ids)
  let ?w1 = "w\<lparr>ticks := Suc (Suc (ticks w))\<rparr>"
  show ?case
  proof (cases "findEvent i w")
    case None
    then have "forEventIds calm host deps ev rcv d label m ids ?w1 = Some (c, w')"
      using Cons.prems by (simp add: andThen_def event_findUnique_calm)
    from Cons.IH[OF this] show ?thesis by (simp add: loopEnd_Cons)
  next
    case (Some other)
    let ?merged = "mergeEvents host
        \<lparr>ev_date = c_dateTime ev, ev_location = c_location ev, ev_fromEmail = Some rcv\<rparr>
        \<lparr>ev_date = d_date other, ev_location = d_location other,
         ev_fromEmail = map_option e_receivedAt (fromEmail other w)\<rparr>"
    show ?thesis
    proof (cases ?merged)
      case (Inl e)
      then show ?thesis
        using Cons.prems Some
        by (auto simp: andThen_def event_findUnique_calm throw_def loopEnd_def)
    next
      case (Inr res)
      show ?thesis
      proof (cases res)
        case Unmergable
        then have "forEventIds calm host deps ev rcv d label m ids ?w1 = Some (c, w')"
          using Cons.prems Some Inr by (simp add: andThen_def event_findUnique_calm)
        from Cons.IH[OF this] show ?thesis by (simp add: loopEnd_Cons)
      next
        case Latter
        then show ?thesis
          using Cons.prems Some Inr
          by (auto simp: andThen_def event_findUnique_calm ret_def loopEnd_def)
      next
        case Former
        then have "andThen (await calm (\<lambda>w. (Inr (createEmbedding deps (c_title ev)), w)))
                     (\<lambda>embedding.
                        andThen (sync (\<lambda>w. (Inr (), reattach (c_title ev) embedding i label m w)))
                          (\<lambda>_. andThen (await calm (event_update i d))
                                  (\<lambda>_. ret (Some (Updated i))))) ?w1 = Some (c, w')"
          using Cons.prems Some Inr by (simp add: andThen_def event_findUnique_calm)
        then show ?thesis
          by (auto simp: andThen_def pure_calm sync_def completed_def await_calm ret_def
              loopEnd_def superseded_def supersedable_def event_update_ticks
              split: prod.splits sum.splits)
      qed
    qed
  qed
qed

lemma neighborsEnd_ticks [simp]:
  "neighborsEnd deps ev d knn (w\<lparr>ticks := n\<rparr>) c w' = neighborsEnd deps ev d knn w c w'"
  by (simp add: neighborsEnd_def split: completion.splits option.splits decision.splits)

lemma neighborsEnd_Cons:
  "neighborsEnd deps ev d knn w c w' \<Longrightarrow> neighborsEnd deps ev d (n # knn) w c w'"
  by (auto simp: neighborsEnd_def split: completion.splits option.splits decision.splits)

lemma forNeighbors_calm:
  "forNeighbors calm host deps ev rcv d knn w = Some (c, w') \<Longrightarrow> neighborsEnd deps ev d knn w c w'"
proof (induction knn arbitrary: w)
  case Nil
  then show ?case by (auto simp: ret_def neighborsEnd_def)
next
  case (Cons n knn)
  obtain label distance where n: "n = (label, distance)" by (cases n)
  show ?case
  proof (cases "getEmbedding label w")
    case None
    then show ?thesis
      using Cons.prems
      by (auto simp: n andThen_def sync_def completed_def neighborsEnd_def)
  next
    case (Some e)
    let ?ids = "eventIdsOf (metadata e) w"
    from Cons.prems Some obtain c1 w1
      where inner: "forEventIds calm host deps ev rcv d label (metadata e) ?ids w = Some (c1, w1)"
        and rest: "(case c1 of
                      Returned merged \<Rightarrow>
                        (case merged of
                           Some dec \<Rightarrow> ret (Some dec)
                         | None \<Rightarrow> forNeighbors calm host deps ev rcv d knn) w1
                    | Thrown x \<Rightarrow> Some (Thrown x, w1)
                    | Suspended \<Rightarrow> Some (Suspended, w1)) = Some (c, w')"
      by (auto simp: n andThen_def sync_def completed_def split: option.splits)
    have le: "loopEnd deps ev d label (metadata e) ?ids w c1 w1"
      by (rule forEventIds_calm[OF inner])
    show ?thesis
    proof (cases c1)
      case (Returned merged)
      show ?thesis
      proof (cases merged)
        case None
        then have same: "sameButTicks w w1" using le Returned by (simp add: loopEnd_def)
        then obtain k where w1: "w1 = w\<lparr>ticks := k\<rparr>" unfolding sameButTicks_def by blast
        have "forNeighbors calm host deps ev rcv d knn w1 = Some (c, w')"
          using rest Returned None by simp
        from Cons.IH[OF this] show ?thesis
          unfolding w1 by (simp add: neighborsEnd_Cons)
      next
        case (Some dec)
        then have "c = Returned (Some dec)" "w' = w1"
          using rest Returned by (simp_all add: ret_def)
        then show ?thesis
          using le Returned Some \<open>getEmbedding label w = Some e\<close>
          by (cases dec) (auto simp: loopEnd_def neighborsEnd_def n intro!: exI[of _ label])
      qed
    next
      case (Thrown x)
      then show ?thesis using rest by (auto simp: neighborsEnd_def)
    next
      case Suspended
      then show ?thesis using le by (simp add: loopEnd_def)
    qed
  qed
qed

lemma storeOf_index_ops [simp]:
  "storeOf (upsertEmbedding label v ids w) = storeOf w"
  "storeOf (reattach title v i label m w) = storeOf w"
  "storeOf (w\<lparr>ticks := n\<rparr>) = storeOf w"
  by (simp_all add: storeOf_def upsertEmbedding_def reattach_def setEventIds_def
      deleteEmbedding_def Let_def)

lemma sameButTicks_storeOf: "sameButTicks w w' \<Longrightarrow> storeOf w' = storeOf w"
  unfolding sameButTicks_def by auto

lemma sameButTicks_index:
  "sameButTicks w w' \<Longrightarrow> embeddingDB w' = embeddingDB w \<and> metaHeap w' = metaHeap w \<and>
     nextObject w' = nextObject w"
  unfolding sameButTicks_def by auto

lemma storeOf_superseded:
  "supersedable deps ev d i label m w \<Longrightarrow>
   storeOf (superseded deps ev d i label m w) =
     (emails w, senders w, map (\<lambda>x. if evt_id x = i then row i d else x) (events w),
      nextEventId w, ignoredEmails w)"
  unfolding supersedable_def superseded_def event_update_def
  using storeOf_index_ops(2)[of "c_title ev" "createEmbedding deps (c_title ev)" i label m w]
  by (auto simp: storeOf_def emit_def split: if_splits)

lemma reattach_frame [simp]:
  "findEvent i (reattach title v j label m w) = findEvent i w"
  "connectable d (reattach title v j label m w) = connectable d w"
  "events (reattach title v j label m w) = events w"
  "ticks (reattach title v j label m w) = ticks w"
  by (simp_all add: reattach_def Let_def upsertEmbedding_def setEventIds_def deleteEmbedding_def
      findEvent_def connectable_def findEmail_def split: option.splits)

lemmas step_defs = andThen_def sync_def await_def awaitQuery_def completed_def ret_def throw_def
  event_findUnique_def event_update_def event_create_def findEvent_def fromEmail_def
  findEmail_def connectable_def emit_def reattach_def upsertEmbedding_def setEventIds_def
  deleteEmbedding_def eventIdsOf_def getEmbedding_def row_def newEventData_def Let_def

lemmas diary_defs = diary_def diaryKept_def diaryUpdated_def world0_def stored_def party_def
  bash_def deps0_def host0_def asciiLower_def js_def

lemma bash_merges:
  "mergeEvents host0 (candidateSide bash r) (storedSide (row 1 (newEventData root txt party)) (Some 1))
   = Inr (if r \<le> 1 then Latter else Former)"
  by (simp add: mergeEvents_def sameDate_def sameLocation_def getTime_def candidateSide_def
      storedSide_def row_def newEventData_def party_def bash_def host0_def asciiLower_def js_def)

lemma supersede_run:
  "forEventIds calm host0 (deps0 x knn) bash 2 (newEventData (js ''a'') (js ''re'') bash)
     (js ''party'') 0 [1] diary =
   Some (Returned (Some (Updated 1)), diaryUpdated)"
  using bash_merges[of 2 "js ''a''" "js ''bcc to dorms''"]
  by (simp add: step_defs diary_defs candidateSide_def storedSide_def fun_upd_twist)

lemma keep_run:
  "processEvent calm host0 (deps0 x [(js ''party'', 0)]) 0 (js ''a'') (js ''re'') bash diary =
   Some (Returned (NotInserted 1), diaryKept)"
  using bash_merges[of 0 "js ''a''" "js ''bcc to dorms''"]
  by (simp add: processEvent_def step_defs diary_defs candidateSide_def storedSide_def)

lemma diary_event:
  "findEvent 1 diary = Some (row 1 (newEventData (js ''a'') (js ''bcc to dorms'') party))"
  by (simp add: findEvent_def diary_def world0_def row_def)

lemma diary_owner:
  "fromEmail (row 1 (newEventData (js ''a'') (js ''bcc to dorms'') party)) diary =
   Some (stored (js ''M2''))"
  by (simp add: fromEmail_def findEmail_def diary_def world0_def row_def newEventData_def
      stored_def)

lemma bash_compatible:
  "dateCompatible host0 (candidateSide bash r)
     (storedSide (row 1 (newEventData (js ''a'') (js ''bcc to dorms'') party)) (Some 1)) \<and>
   locationCompatible host0 (candidateSide bash r)
     (storedSide (row 1 (newEventData (js ''a'') (js ''bcc to dorms'') party)) (Some 1))"
  unfolding sameDate_iff[symmetric] sameLocation_iff[symmetric]
  by (simp add: sameDate_def sameLocation_def getTime_def candidateSide_def
      storedSide_def row_def newEventData_def party_def bash_def host0_def asciiLower_def js_def)

lemma bash_connectable: "connectable (newEventData (js ''a'') (js ''re'') bash) diary"
  by (simp add: connectable_def newEventData_def findEmail_def diary_def world0_def stored_def)




text \<open>
  Claim C2, amended. When an extracted event and a stored event pass both tests,
  \<open>mergeEvents\<close> answers \<open>latter\<close> if the message of the extracted event was received no
  later than the owning message of the stored event, and the extracted event is dropped;
  otherwise it answers \<open>former\<close>, and the stored event takes the data of the extracted
  event under its id. The event of the message received later is the one that stays.
\<close>

theorem tie_break_keeps_later:
  assumes found: "findEvent i w = Some other"
    and owner: "fromEmail other w = Some owner"
    and compatible:
      "dateCompatible host (candidateSide ev rcv) (storedSide other (Some (e_receivedAt owner)))"
      "locationCompatible host (candidateSide ev rcv) (storedSide other (Some (e_receivedAt owner)))"
    and conn: "connectable d w"
  shows "mergeEvents host (candidateSide ev rcv) (storedSide other (Some (e_receivedAt owner))) =
           Inr (if rcv \<le> e_receivedAt owner then Latter else Former) \<and>
         (\<exists>w'. forEventIds calm host deps ev rcv d label m (i # ids) w =
                  Some (Returned (Some (if rcv \<le> e_receivedAt owner then NotInserted i
                                        else Updated i)), w') \<and>
                events w' =
                  (if rcv \<le> e_receivedAt owner then events w
                   else map (\<lambda>x. if evt_id x = i then row i d else x) (events w)))"
proof -
  have merged: "mergeEvents host
        \<lparr>ev_date = c_dateTime ev, ev_location = c_location ev, ev_fromEmail = Some rcv\<rparr>
        \<lparr>ev_date = d_date other, ev_location = d_location other,
         ev_fromEmail = Some (e_receivedAt owner)\<rparr> =
        Inr (if rcv \<le> e_receivedAt owner then Latter else Former)"
    using compatible
    by (simp add: mergeEvents_def sameDate_iff sameLocation_iff candidateSide_def storedSide_def)
  have run: "\<exists>w'. forEventIds calm host deps ev rcv d label m (i # ids) w =
                  Some (Returned (Some (if rcv \<le> e_receivedAt owner then NotInserted i
                                        else Updated i)), w') \<and>
                events w' =
                  (if rcv \<le> e_receivedAt owner then events w
                   else map (\<lambda>x. if evt_id x = i then row i d else x) (events w))"
  proof (cases "rcv \<le> e_receivedAt owner")
    case True
    then show ?thesis
      using found owner merged by (simp add: andThen_def event_findUnique_calm ret_def)
  next
    case False
    let ?W = "reattach (c_title ev) (createEmbedding deps (c_title ev)) i label m w"
    have upd: "event_update i d (?W\<lparr>ticks := n\<rparr>) =
                 (Inr (), emit (EventUpdate i)
                    (?W\<lparr>ticks := n,
                        events := map (\<lambda>x. if evt_id x = i then row i d else x) (events w)\<rparr>))" for n
      using found conn by (simp add: event_update_def emit_def)
    let ?rest = "andThen (await calm (\<lambda>w. (Inr (createEmbedding deps (c_title ev)), w)))
                   (\<lambda>embedding.
                      andThen (sync (\<lambda>w. (Inr (), reattach (c_title ev) embedding i label m w)))
                        (\<lambda>_. andThen (await calm (event_update i d))
                                (\<lambda>_. ret (Some (Updated i)))))"
    have step1: "forEventIds calm host deps ev rcv d label m (i # ids) w =
                   ?rest (w\<lparr>ticks := Suc (Suc (ticks w))\<rparr>)"
      using found owner merged False by (simp add: andThen_def event_findUnique_calm)
    have step2: "?rest (w\<lparr>ticks := Suc (Suc (ticks w))\<rparr>) =
            Some (Returned (Some (Updated i)),
                  (emit (EventUpdate i)
                     (?W\<lparr>events := map (\<lambda>x. if evt_id x = i then row i d else x) (events w)\<rparr>))
                  \<lparr>ticks := ticks w + 6\<rparr>)"
      by (simp add: andThen_def pure_calm sync_def completed_def await_calm upd ret_def emit_def)
    from step1 step2 False show ?thesis
      by (simp add: emit_def)
  qed
  from merged run show ?thesis
    by (simp add: candidateSide_def storedSide_def)
qed

text \<open>The event in the lobby, from a message received at time 0, against the stored party
  of a message received at time 1: the stored event stays.\<close>

theorem tie_break_keeps_later_witness:
  "findEvent 1 diary = Some (row 1 (newEventData (js ''a'') (js ''bcc to dorms'') party)) \<and>
   fromEmail (row 1 (newEventData (js ''a'') (js ''bcc to dorms'') party)) diary =
     Some (stored (js ''M2'')) \<and>
   e_receivedAt (stored (js ''M2'')) = 1 \<and>
   dateCompatible host0 (candidateSide bash 0)
     (storedSide (row 1 (newEventData (js ''a'') (js ''bcc to dorms'') party)) (Some 1)) \<and>
   locationCompatible host0 (candidateSide bash 0)
     (storedSide (row 1 (newEventData (js ''a'') (js ''bcc to dorms'') party)) (Some 1)) \<and>
   connectable (newEventData (js ''a'') (js ''re'') bash) diary \<and>
   mergeEvents host0 (candidateSide bash 0)
     (storedSide (row 1 (newEventData (js ''a'') (js ''bcc to dorms'') party)) (Some 1)) =
     Inr Latter \<and>
   (\<exists>w'. forEventIds calm host0 (deps0 (Admitted []) []) bash 0
            (newEventData (js ''a'') (js ''re'') bash) (js ''party'') 0 [1] diary =
            Some (Returned (Some (NotInserted 1)), w') \<and>
          events w' = events diary)"
  using tie_break_keeps_later[OF diary_event diary_owner _ _ bash_connectable,
      of host0 bash 0 "deps0 (Admitted []) []" "js ''party''" 0 "[]"]
    diary_event diary_owner bash_compatible[of 0] bash_connectable
  by (simp add: stored_def)

text \<open>The claim as stated fails when the message of the extracted event was received at
  time 2: the stored event belongs to the message received earlier, and it is overwritten.\<close>

theorem later_message_wins_counterexample:
  "e_receivedAt (stored (js ''M2'')) = 1 \<and>
   fromEmail (row 1 (newEventData (js ''a'') (js ''bcc to dorms'') party)) diary =
     Some (stored (js ''M2'')) \<and>
   mergeEvents host0 (candidateSide bash 2)
     (storedSide (row 1 (newEventData (js ''a'') (js ''bcc to dorms'') party)) (Some 1)) =
     Inr Former \<and>
   forEventIds calm host0 (deps0 (Admitted []) []) bash 2
     (newEventData (js ''a'') (js ''re'') bash) (js ''party'') 0 [1] diary =
     Some (Returned (Some (Updated 1)), diaryUpdated) \<and>
   events diary = [row 1 (newEventData (js ''a'') (js ''bcc to dorms'') party)] \<and>
   events diaryUpdated = [row 1 (newEventData (js ''a'') (js ''re'') bash)]"
  using supersede_run[of "Admitted []" "[]"] diary_owner
    bash_merges[of 2 "js ''a''" "js ''bcc to dorms''"]
  by (simp add: stored_def diary_def diaryUpdated_def world0_def)

subsection \<open>Runs on a store with events of an older model\<close>

lemma indexed_cong:
  "embeddingDB w' = embeddingDB w \<Longrightarrow> metaHeap w' = metaHeap w \<Longrightarrow> indexed w' i = indexed w i"
  by (simp add: indexed_def eventIdsOf_def)

lemma email_upsert_frame:
  "events (snd (email_upsert mid sb u addr nm subj html rcv mn irt w)) = events w"
  "embeddingDB (snd (email_upsert mid sb u addr nm subj html rcv mn irt w)) = embeddingDB w"
  "metaHeap (snd (email_upsert mid sb u addr nm subj html rcv mn irt w)) = metaHeap w"
  by (auto simp: email_upsert_def emit_def split: option.splits)

lemmas store_defs = storeAndExtract_def storeAndInvalidate_def extractAndMerge_def
  markProcessedByCurrentModel_def email_upsert_def email_update_def setModelName_def
  event_findFirst_def event_deleteMany_def fromEmail_def issue_def

lemma stale_run:
  "storeAndInvalidate calm (deps0 x knn) (js ''me'') 3 announced (js ''a'') stale =
   Some (Returned None, staleCleared)"
  by (simp add: store_defs run_defs announced_def stale_def staleCleared_def diary_def world0_def
      stored_def deps0_def row_def newEventData_def party_def)

lemma stale_processMail_run:
  "processMail calm host0 (deps0 RejectedByGpt3 knn) (js ''me'') 3 announcement stale =
   Some (Returned DORMSPAM_BUT_NOT_EVENT_BY_GPT_3, staleEnd)"
  by (simp add: store_defs run_defs announcement_def someone_def stale_def staleEnd_def
      diary_def world0_def stored_def deps0_def row_def newEventData_def party_def classified)

subsection \<open>A reply whose thread has no root in the store\<close>

lemma findEmail_cong: "emails w' = emails w \<Longrightarrow> findEmail mid w' = findEmail mid w"
  by (simp add: findEmail_def)

lemma orphaned_cong: "emails w' = emails w \<Longrightarrow> orphaned w' mid n = orphaned w mid n"
  by (induction n arbitrary: mid) (simp_all add: findEmail_def split: option.splits)

lemma orphaned_ticks [simp]: "orphaned (w\<lparr>ticks := k\<rparr>) mid n = orphaned w mid n"
  by (rule orphaned_cong) simp

lemma walkRoot_orphaned:
  "e_inReplyToId e = Some p \<Longrightarrow> orphaned w p n \<Longrightarrow>
   walkRoot calm e w =
     Some (Returned (Inl DORMSPAM_BUT_ROOT_NOT_IN_DB), w\<lparr>ticks := ticks w + 2 * Suc n\<rparr>)"
proof (induction n arbitrary: e p w)
  case 0
  then show ?case
    by (subst walkRoot.simps) (simp add: awaitQuery_def email_findUnique_def)
next
  case (Suc n)
  from Suc.prems(2) obtain e' p' where e': "findEmail p w = Some e'"
    and p': "e_inReplyToId e' = Some p'" and rest: "orphaned w p' n"
    by (auto split: option.splits)
  have "walkRoot calm e' (w\<lparr>ticks := Suc (Suc (ticks w))\<rparr>) =
          Some (Returned (Inl DORMSPAM_BUT_ROOT_NOT_IN_DB),
                w\<lparr>ticks := Suc (Suc (ticks w)) + 2 * Suc n\<rparr>)"
    using Suc.IH[OF p', of "w\<lparr>ticks := Suc (Suc (ticks w))\<rparr>"] rest by simp
  then show ?case
    using Suc.prems(1) e'
    by (subst walkRoot.simps) (simp add: awaitQuery_def email_findUnique_def)
qed

lemma resolveRoot_orphaned:
  assumes "p_inReplyTo parsed = Some parent" "orphaned w parent n"
  shows "resolveRoot calm parsed mid w =
           Some (Returned (Inl DORMSPAM_BUT_ROOT_NOT_IN_DB), w\<lparr>ticks := ticks w + 2 + 2 * n\<rparr>)"
proof (cases n)
  case 0
  then show ?thesis
    using assms
    by (simp add: resolveRoot_def andThen_def await_calm email_findUnique_def completed_def ret_def)
next
  case (Suc k)
  from assms(2) Suc obtain e p where e: "findEmail parent w = Some e"
    and p: "e_inReplyToId e = Some p" and rest: "orphaned w p k"
    by (auto split: option.splits)
  have "walkRoot calm e (w\<lparr>ticks := Suc (Suc (ticks w))\<rparr>) =
          Some (Returned (Inl DORMSPAM_BUT_ROOT_NOT_IN_DB),
                w\<lparr>ticks := Suc (Suc (ticks w)) + 2 * Suc k\<rparr>)"
    using walkRoot_orphaned[OF p, of "w\<lparr>ticks := Suc (Suc (ticks w))\<rparr>" k] rest by simp
  then show ?thesis
    using assms(1) e Suc
    by (simp add: resolveRoot_def andThen_def await_calm email_findUnique_def completed_def ret_def)
qed

lemma uidsOfRun_cong:
  "ignoredEmails w' = ignoredEmails w \<Longrightarrow> emails w' = emails w \<Longrightarrow>
   uidsOfRun deps user allUids w' = uidsOfRun deps user allUids w"
  by (simp add: uidsOfRun_def unseenUids_def seenUids_def ignoredUids_def processedUids_def
      uidsToFetch_def fetchedEmails_def)

text \<open>
  Claim C7, amended. A reply that has all its fields, does not conflict with a stored
  message and is relevant, and whose chain of replies leads to a message that is not in
  the store: when the invocation runs alone it returns \<open>DORMSPAM_BUT_ROOT_NOT_IN_DB\<close>,
  the tombstones and the stored messages are as before, and so are the uids the next
  run processes.
\<close>

theorem orphaned_reply_deferred:
  assumes checks: "passesChecks parsed"
    and unique: "\<not> conflicting parsed u w"
    and relevant: "isDormspam (textOf deps parsed)"
    and reply: "p_inReplyTo parsed = Some parent"
    and chain: "orphaned w parent n"
  shows "processMail calm host deps sb u parsed w =
           Some (Returned DORMSPAM_BUT_ROOT_NOT_IN_DB, rootNotFound parsed n w) \<and>
         ignoredEmails (rootNotFound parsed n w) = ignoredEmails w \<and>
         emails (rootNotFound parsed n w) = emails w \<and>
         uidsOfRun deps user allUids (rootNotFound parsed n w) = uidsOfRun deps user allUids w"
proof -
  from checks obtain mid sender more addr c html subj
    where p: "p_messageId parsed = Some mid" "p_from parsed = Some (sender # more)"
      "a_address sender = Some addr" "p_html parsed = Some (c # html)"
      "p_subject parsed = Some subj"
    unfolding passesChecks_def
    by (auto simp: neq_Nil_conv split: option.splits list.splits)
  define rcv where "rcv = (case p_date parsed of None \<Rightarrow> clock host | Some t \<Rightarrow> t)"
  define l where "l = localsOf deps parsed rcv mid sender addr (c # html) subj"
  define w1 where "w1 = register mid (nextDeferred w) (w\<lparr>nextDeferred := Suc (nextDeferred w)\<rparr>)"
  have l: "l_messageId l = mid" "l_text l = textOf deps parsed"
    unfolding l_def localsOf_def textOf_def using p by (simp_all split: option.splits)
  have e1: "emails w1 = emails w" and t1: "ticks w1 = ticks w"
    unfolding w1_def register_def emit_def by simp_all
  have cp: "checkAndProcess calm host deps sb u parsed rcv w1 =
              classifyAndResolve calm host deps sb u parsed l w1"
    unfolding checkAndProcess_def l_def using p by simp
  have found: "\<not> (case findEmail mid w1 of None \<Rightarrow> False | Some e \<Rightarrow> e_uid e \<noteq> u)"
    using unique p unfolding conflicting_def findEmail_cong[OF e1] by simp
  have rr: "resolveRoot calm parsed mid (w1\<lparr>ticks := Suc (Suc (ticks w1))\<rparr>) =
              Some (Returned (Inl DORMSPAM_BUT_ROOT_NOT_IN_DB),
                    w1\<lparr>ticks := ticks w + 4 + 2 * n\<rparr>)"
    using resolveRoot_orphaned[OF reply, of "w1\<lparr>ticks := Suc (Suc (ticks w1))\<rparr>" n mid]
      chain orphaned_cong[OF e1] t1 by simp
  have ca: "classifyAndResolve calm host deps sb u parsed l w1 =
              Some (Returned DORMSPAM_BUT_ROOT_NOT_IN_DB, w1\<lparr>ticks := ticks w + 4 + 2 * n\<rparr>)"
    unfolding classifyAndResolve_def
    using found relevant l rr
    by (simp add: andThen_def await_calm email_findUnique_def completed_def ret_def)
  have run: "processMail calm host deps sb u parsed w =
               Some (Returned DORMSPAM_BUT_ROOT_NOT_IN_DB, rootNotFound parsed n w)"
    unfolding processMail_def tryFinally_def tryBlock_def
    using cp ca p(1)
    by (simp add: andThen_def sync_def completed_def rcv_def w1_def rootNotFound_def
        register_def resolve_def emit_def)
  have store: "ignoredEmails (rootNotFound parsed n w) = ignoredEmails w"
    "emails (rootNotFound parsed n w) = emails w"
    using p(1) by (simp_all add: rootNotFound_def)
  from run store uidsOfRun_cong[OF store] show ?thesis
    by simp
qed

text \<open>The reply \<open>b\<close> to the stored message \<open>a\<close>, itself a reply to a message that is not
  stored.\<close>

lemma reply_checks:
  "passesChecks reply \<and> \<not> conflicting reply 7 dangling \<and>
   isDormspam (textOf (deps0 x knn) reply) \<and> orphaned dangling (js ''a'') 1"
  by (simp add: passesChecks_def conflicting_def textOf_def reply_def someone_def deps0_def
      dangling_def world0_def stored_def findEmail_def classified js_def)

lemma chatter_orphan_run:
  "processMail calm host0 (deps0 x knn) (js ''me'') 7 chatter world0 =
   Some (Returned NOT_DORMSPAM, chatterOrphanEnd)"
  by (simp add: run_defs chatter_def reply_def world0_def deps0_def someone_def
      classified chatterOrphanEnd_def)

theorem orphaned_reply_deferred_witness:
  "passesChecks reply \<and> \<not> conflicting reply 7 dangling \<and>
   isDormspam (textOf (deps0 (Admitted []) []) reply) \<and>
   p_inReplyTo reply = Some (js ''a'') \<and> orphaned dangling (js ''a'') 1 \<and>
   processMail calm host0 (deps0 (Admitted []) []) (js ''me'') 7 reply dangling =
     Some (Returned DORMSPAM_BUT_ROOT_NOT_IN_DB, danglingEnd) \<and>
   ignoredEmails danglingEnd = [] \<and> emails danglingEnd = emails dangling \<and>
   uidsOfRun (deps0 (Admitted []) []) (js ''me'') [7] danglingEnd = [7]"
proof -
  have final: "rootNotFound reply 1 dangling = danglingEnd"
    by (simp add: rootNotFound_def reply_def dangling_def danglingEnd_def world0_def)
  have again: "uidsOfRun (deps0 (Admitted []) []) (js ''me'') [7] dangling = [7]"
    by (simp add: uidsOfRun_def unseenUids_def seenUids_def ignoredUids_def processedUids_def
        uidsToFetch_def fetchedEmails_def byUserAndRecent_def dangling_def world0_def
        stored_def deps0_def)
  have none: "ignoredEmails dangling = []"
    by (simp add: dangling_def world0_def)
  have parent: "p_inReplyTo reply = Some (js ''a'')"
    by (simp add: reply_def)
  note checks = reply_checks[of "Admitted []" "[]"]
  from orphaned_reply_deferred[OF checks[THEN conjunct1] checks[THEN conjunct2, THEN conjunct1]
      checks[THEN conjunct2, THEN conjunct2, THEN conjunct1] parent
      checks[THEN conjunct2, THEN conjunct2, THEN conjunct2],
      of host0 "js ''me''" "js ''me''" "[7]", unfolded final]
    checks parent again none
  show ?thesis
    by simp
qed

text \<open>The claim as stated fails for a reply without a keyword, whose parent is not in the
  store: it is classified before its root is looked up, and gets a tombstone.\<close>

theorem irrelevant_reply_counterexample:
  "p_inReplyTo chatter = Some (js ''a'') \<and> findEmail (js ''a'') world0 = None \<and>
   processMail calm host0 (deps0 (Admitted []) []) (js ''me'') 7 chatter world0 =
     Some (Returned NOT_DORMSPAM, chatterOrphanEnd) \<and>
   ignoredEmails world0 = [] \<and>
   ignoredEmails chatterOrphanEnd = [\<lparr>i_scrapedBy = js ''me'', i_uid = 7, i_receivedAt = 2\<rparr>] \<and>
   uidsOfRun (deps0 (Admitted []) []) (js ''me'') [7] chatterOrphanEnd = []"
  using chatter_orphan_run[of "Admitted []" "[]"]
  by (simp add: chatter_def reply_def findEmail_def world0_def chatterOrphanEnd_def
      uidsOfRun_def unseenUids_def seenUids_def ignoredUids_def processedUids_def
      byUserAndRecent_def)

subsection \<open>The last update of a successful invocation\<close>

lemma quiet_refl [simp]: "quiet w w"
  by (simp add: quiet_def)

lemma quiet_trans: "quiet a b \<Longrightarrow> quiet b c \<Longrightarrow> quiet a c"
  by (auto simp: quiet_def)

lemma quietI: "emitsOnly (\<lambda>x. \<not> isEmailUpdate x) m \<Longrightarrow> m w = Some (c, w') \<Longrightarrow> quiet w w'"
  unfolding quiet_def by (rule emitsOnlyD)

lemma andThen_Returned:
  "andThen m k w = Some (Returned b, w') \<Longrightarrow>
   \<exists>a w1. m w = Some (Returned a, w1) \<and> k a w1 = Some (Returned b, w')"
  by (auto simp: andThen_def split: option.splits completion.splits)

lemma andThen_ret_other:
  "x \<noteq> y \<Longrightarrow> andThen m (\<lambda>_. ret x) w \<noteq> Some (Returned y, w')"
  by (auto simp: andThen_def ret_def split: option.splits completion.splits)

lemma localsOf_messageId [simp]:
  "l_messageId (localsOf deps parsed rcv mid sender addr html subj) = mid"
  by (simp add: localsOf_def)

lemma checkAndProcess_success:
  assumes "checkAndProcess env host deps sb u parsed rcv w = Some (Returned DORMSPAM_WITH_EVENT, w')"
  shows "\<exists>mid l. p_messageId parsed = Some mid \<and>
           classifyAndResolve env host deps sb u parsed l w =
             Some (Returned DORMSPAM_WITH_EVENT, w') \<and> l_messageId l = mid"
  using assms andThen_ret_other[of MALFORMED_EMAIL DORMSPAM_WITH_EVENT
      "ignoreThisEmailForever env sb u rcv" w w']
  unfolding checkAndProcess_def
  by (fastforce simp: throw_def split: option.splits list.splits)

lemma walkRoot_Inl:
  assumes "walkRoot env root w = Some y"
  shows "\<forall>r w'. y = (Returned (Inl r), w') \<longrightarrow> r = DORMSPAM_BUT_ROOT_NOT_IN_DB"
proof (rule walkRoot.raw_induct[where P = "\<lambda>env root w y.
         \<forall>r w'. y = (Returned (Inl r), w') \<longrightarrow> r = DORMSPAM_BUT_ROOT_NOT_IN_DB", OF _ assms])
  fix walk env root w y
  assume IH: "\<And>env root w y. walk env root w = Some y \<Longrightarrow>
                \<forall>r w'. y = (Returned (Inl r), w') \<longrightarrow> r = DORMSPAM_BUT_ROOT_NOT_IN_DB"
    and body: "(case e_inReplyToId root of
                  None \<Rightarrow> Some (Returned (Inr root), w)
                | Some parent \<Rightarrow>
                    (case awaitQuery env (email_findUnique parent) w of
                       (Inl e, w') \<Rightarrow> Some (Thrown e, w')
                     | (Inr None, w') \<Rightarrow> Some (Returned (Inl DORMSPAM_BUT_ROOT_NOT_IN_DB), w')
                     | (Inr (Some nextRoot), w') \<Rightarrow> walk env nextRoot w')) = Some y"
  show "\<forall>r w'. y = (Returned (Inl r), w') \<longrightarrow> r = DORMSPAM_BUT_ROOT_NOT_IN_DB"
    using body IH
    by (auto split: prod.splits sum.splits option.splits)
qed

lemma resolveRoot_Inl:
  assumes "resolveRoot env parsed mid w = Some (Returned (Inl r), w')"
  shows "r = DORMSPAM_BUT_ROOT_NOT_IN_DB"
proof (cases "p_inReplyTo parsed")
  case None
  then show ?thesis using assms by (simp add: resolveRoot_def ret_def)
next
  case (Some parent)
  from andThen_Returned[OF assms[unfolded resolveRoot_def Some option.case]]
  obtain first w1 where k: "(case first of
              None \<Rightarrow> ret (Inl DORMSPAM_BUT_ROOT_NOT_IN_DB)
            | Some first \<Rightarrow>
                andThen (walkRoot env first) (\<lambda>walked.
                  case walked of
                    Inl result \<Rightarrow> ret (Inl result)
                  | Inr root \<Rightarrow>
                      andThen (awaitParent env (e_messageId first)) (\<lambda>_.
                        ret (Inr (e_messageId root))))) w1 = Some (Returned (Inl r), w')"
    by blast
  show ?thesis
  proof (cases first)
    case None
    then show ?thesis using k by (simp add: ret_def)
  next
    case (Some e)
    from andThen_Returned[OF k[unfolded Some option.case]]
    obtain walked w2 where wr: "walkRoot env e w1 = Some (Returned walked, w2)"
      and k2: "(case walked of
                    Inl result \<Rightarrow> ret (Inl result)
                  | Inr root \<Rightarrow>
                      andThen (awaitParent env (e_messageId e)) (\<lambda>_.
                        ret (Inr (e_messageId root)))) w2 = Some (Returned (Inl r), w')"
      by blast
    show ?thesis
    proof (cases walked)
      case (Inl res)
      then show ?thesis using k2 walkRoot_Inl[OF wr] by (simp add: ret_def)
    next
      case (Inr root)
      then show ?thesis
        using k2 by (auto simp: andThen_def ret_def split: option.splits completion.splits)
    qed
  qed
qed

lemma classifyAndResolve_success:
  assumes "classifyAndResolve env host deps sb u parsed l w =
             Some (Returned DORMSPAM_WITH_EVENT, w')"
  shows "\<exists>found w1 root w2.
           await env (email_findUnique (l_messageId l)) w = Some (Returned found, w1) \<and>
           resolveRoot env parsed (l_messageId l) w1 = Some (Returned (Inr root), w2) \<and>
           storeAndExtract env host deps sb u l root w2 = Some (Returned DORMSPAM_WITH_EVENT, w')"
proof -
  from andThen_Returned[OF assms[unfolded classifyAndResolve_def]]
  obtain found w1 where a: "await env (email_findUnique (l_messageId l)) w = Some (Returned found, w1)"
    and rest: "(if (case found of None \<Rightarrow> False | Some e \<Rightarrow> e_uid e \<noteq> u)
       then andThen (ignoreThisEmailForever env sb u (l_receivedAt l)) (\<lambda>_. ret MALFORMED_EMAIL)
       else if \<not> isDormspam (l_text l)
       then andThen (ignoreThisEmailForever env sb u (l_receivedAt l)) (\<lambda>_. ret NOT_DORMSPAM)
       else andThen (resolveRoot env parsed (l_messageId l))
              (\<lambda>resolution. case resolution of
                   Inl result \<Rightarrow> ret result
                 | Inr rootMessageId \<Rightarrow>
                     storeAndExtract env host deps sb u l rootMessageId)) w1
      = Some (Returned DORMSPAM_WITH_EVENT, w')"
    by blast
  from rest have go: "andThen (resolveRoot env parsed (l_messageId l))
              (\<lambda>resolution. case resolution of
                   Inl result \<Rightarrow> ret result
                 | Inr rootMessageId \<Rightarrow>
                     storeAndExtract env host deps sb u l rootMessageId) w1
      = Some (Returned DORMSPAM_WITH_EVENT, w')"
    using andThen_ret_other[of MALFORMED_EMAIL DORMSPAM_WITH_EVENT
        "ignoreThisEmailForever env sb u (l_receivedAt l)" w1 w']
      andThen_ret_other[of NOT_DORMSPAM DORMSPAM_WITH_EVENT
        "ignoreThisEmailForever env sb u (l_receivedAt l)" w1 w']
    by (auto split: if_splits)
  from andThen_Returned[OF go] obtain resolution w2
    where r: "resolveRoot env parsed (l_messageId l) w1 = Some (Returned resolution, w2)"
      and k: "(case resolution of
                   Inl result \<Rightarrow> ret result
                 | Inr rootMessageId \<Rightarrow>
                     storeAndExtract env host deps sb u l rootMessageId) w2
              = Some (Returned DORMSPAM_WITH_EVENT, w')"
    by blast
  show ?thesis
  proof (cases resolution)
    case (Inl res)
    then have "res = DORMSPAM_BUT_ROOT_NOT_IN_DB" using r resolveRoot_Inl by blast
    then show ?thesis using k Inl by (simp add: ret_def)
  next
    case (Inr root)
    then show ?thesis using a r k by auto
  qed
qed

lemma storeAndInvalidate_Some:
  assumes "storeAndInvalidate env deps sb u l root w = Some (Returned (Some r), w')"
  shows "r = DORMSPAM_PROCESSED_WITH_SAME_PROMPT"
proof -
  from andThen_Returned[OF assms[unfolded storeAndInvalidate_def]]
  obtain w1 where k: "andThen (await env (event_findFirst root)) (\<lambda>existing.
       case existing of
         None \<Rightarrow> ret None
       | Some (ev, modelName) \<Rightarrow>
           if modelName = Some (CURRENT_MODEL_NAME deps)
           then andThen (markProcessedByCurrentModel env deps (l_messageId l)) (\<lambda>_.
                  ret (Some DORMSPAM_PROCESSED_WITH_SAME_PROMPT))
           else andThen (await env (event_deleteMany root)) (\<lambda>_. ret None)) w1
       = Some (Returned (Some r), w')"
    by blast
  from andThen_Returned[OF k]
  obtain existing :: "(event \<times> jsstring option) option" and w2
    where k2: "(case existing of
         None \<Rightarrow> ret None
       | Some (ev, modelName) \<Rightarrow>
           if modelName = Some (CURRENT_MODEL_NAME deps)
           then andThen (markProcessedByCurrentModel env deps (l_messageId l)) (\<lambda>_.
                  ret (Some DORMSPAM_PROCESSED_WITH_SAME_PROMPT))
           else andThen (await env (event_deleteMany root)) (\<lambda>_. ret None)) w2
       = Some (Returned (Some r), w')"
    by blast
  show ?thesis
  proof (cases existing)
    case None
    then show ?thesis using k2 by (simp add: ret_def)
  next
    case (Some found)
    obtain ev modelName where found: "found = (ev, modelName)" by (cases found)
    show ?thesis
    proof (cases "modelName = Some (CURRENT_MODEL_NAME deps)")
      case True
      then have "andThen (markProcessedByCurrentModel env deps (l_messageId l)) (\<lambda>_.
                  ret (Some DORMSPAM_PROCESSED_WITH_SAME_PROMPT)) w2 = Some (Returned (Some r), w')"
        using k2 Some found by simp
      from andThen_Returned[OF this] show ?thesis by (auto simp: ret_def)
    next
      case False
      then have "andThen (await env (event_deleteMany root)) (\<lambda>_. ret None) w2
                 = Some (Returned (Some r), w')"
        using k2 Some found by simp
      then show ?thesis
        using andThen_ret_other[of None "Some r" "await env (event_deleteMany root)" w2 w']
        by simp
    qed
  qed
qed

lemma storeAndExtract_success:
  assumes "storeAndExtract env host deps sb u l root w = Some (Returned DORMSPAM_WITH_EVENT, w')"
  shows "\<exists>w1. storeAndInvalidate env deps sb u l root w = Some (Returned None, w1) \<and>
           extractAndMerge env host deps l root w1 = Some (Returned DORMSPAM_WITH_EVENT, w')"
proof -
  from andThen_Returned[OF assms[unfolded storeAndExtract_def]]
  obtain returned w1 where s: "storeAndInvalidate env deps sb u l root w = Some (Returned returned, w1)"
    and k: "(case returned of
               Some result \<Rightarrow> ret result
             | None \<Rightarrow> extractAndMerge env host deps l root) w1
            = Some (Returned DORMSPAM_WITH_EVENT, w')"
    by blast
  show ?thesis
  proof (cases returned)
    case None
    then show ?thesis using s k by auto
  next
    case (Some r)
    then have "r = DORMSPAM_PROCESSED_WITH_SAME_PROMPT"
      using s storeAndInvalidate_Some by blast
    then show ?thesis using k Some by (simp add: ret_def)
  qed
qed

lemma extractAndMerge_success:
  assumes "extractAndMerge env host deps l root w = Some (Returned DORMSPAM_WITH_EVENT, w')"
  shows "\<exists>result w1 found w2.
           await env (\<lambda>w. (Inr (extractFromEmail deps (l_subject l) (l_text l) (l_receivedAt l)), w)) w
             = Some (Returned result, w1) \<and>
           forEvents env host deps (l_receivedAt l) root (l_text l) found w1 =
             Some (Returned (), w2) \<and>
           w' = issue (l_messageId l) (CURRENT_MODEL_NAME deps) w2"
proof -
  from andThen_Returned[OF assms[unfolded extractAndMerge_def]]
  obtain result w1
    where a: "await env (\<lambda>w. (Inr (extractFromEmail deps (l_subject l) (l_text l) (l_receivedAt l)), w)) w
             = Some (Returned result, w1)"
      and k: "(case result of
           ErrorMalformedJson \<Rightarrow> ret DORMSPAM_BUT_MALFORMED_JSON
         | ErrorOpenaiNetwork \<Rightarrow> ret DORMSPAM_BUT_NETWORK_ERROR
         | RejectedByGpt3 \<Rightarrow>
             andThen (markProcessedByCurrentModel env deps (l_messageId l)) (\<lambda>_.
               ret DORMSPAM_BUT_NOT_EVENT_BY_GPT_3)
         | RejectedByGpt4 \<Rightarrow>
             andThen (markProcessedByCurrentModel env deps (l_messageId l)) (\<lambda>_.
               ret DORMSPAM_BUT_NOT_EVENT_BY_GPT_4)
         | Admitted found \<Rightarrow>
             andThen (forEvents env host deps (l_receivedAt l) root (l_text l)
                        found) (\<lambda>_.
             andThen (sync (\<lambda>w. (Inr (),
                        issue (l_messageId l) (CURRENT_MODEL_NAME deps) w))) (\<lambda>_.
               ret DORMSPAM_WITH_EVENT))) w1 = Some (Returned DORMSPAM_WITH_EVENT, w')"
    by blast
  show ?thesis
  proof (cases result)
    case (Admitted found)
    from andThen_Returned[OF k[unfolded Admitted extraction.case]]
    obtain x w2 where f: "forEvents env host deps (l_receivedAt l) root (l_text l) found w1 =
               Some (Returned x, w2)"
      and fin: "andThen (sync (\<lambda>w. (Inr (),
                        issue (l_messageId l) (CURRENT_MODEL_NAME deps) w))) (\<lambda>_.
               ret DORMSPAM_WITH_EVENT) w2 = Some (Returned DORMSPAM_WITH_EVENT, w')"
      by blast
    from fin have "w' = issue (l_messageId l) (CURRENT_MODEL_NAME deps) w2"
      by (simp add: andThen_def sync_def completed_def ret_def)
    then show ?thesis using a f by auto
  next
    case RejectedByGpt3
    then show ?thesis
      using k andThen_ret_other[of DORMSPAM_BUT_NOT_EVENT_BY_GPT_3 DORMSPAM_WITH_EVENT
          "markProcessedByCurrentModel env deps (l_messageId l)" w1 w']
      by simp
  next
    case RejectedByGpt4
    then show ?thesis
      using k andThen_ret_other[of DORMSPAM_BUT_NOT_EVENT_BY_GPT_4 DORMSPAM_WITH_EVENT
          "markProcessedByCurrentModel env deps (l_messageId l)" w1 w']
      by simp
  qed (use k in \<open>simp_all add: ret_def\<close>)
qed

lemma not_update [simp]:
  "\<not> isEmailUpdate (Registered mid d)" "\<not> isEmailUpdate (Awaited d)"
  "\<not> isEmailUpdate (Resolved d)" "\<not> isEmailUpdate (IgnoredUpsert sb u)"
  "\<not> isEmailUpdate (EmailUpsert mid)" "\<not> isEmailUpdate (EventDeleteMany mid)"
  "\<not> isEmailUpdate (EventCreate i)" "\<not> isEmailUpdate (EventUpdate i)"
  by (simp_all add: isEmailUpdate_def)

lemma storeAndInvalidate_quiet:
  assumes "storeAndInvalidate env deps sb u l root w = Some (Returned None, w')"
  shows "quiet w w'"
proof -
  let ?P = "\<lambda>x. \<not> isEmailUpdate x"
  from andThen_Returned[OF assms[unfolded storeAndInvalidate_def]]
  obtain w1 where up: "await env
       (email_upsert (l_messageId l) sb u (l_senderAddress l) (l_senderName l)
          (l_subject l) (l_html l) (l_receivedAt l)
          (CURRENT_MODEL_NAME deps @ js ''_PROCESSING'') (l_inReplyTo l)) w = Some (Returned (), w1)"
    and k: "andThen (await env (event_findFirst root)) (\<lambda>existing.
       case existing of
         None \<Rightarrow> ret None
       | Some (ev, modelName) \<Rightarrow>
           if modelName = Some (CURRENT_MODEL_NAME deps)
           then andThen (markProcessedByCurrentModel env deps (l_messageId l)) (\<lambda>_.
                  ret (Some DORMSPAM_PROCESSED_WITH_SAME_PROMPT))
           else andThen (await env (event_deleteMany root)) (\<lambda>_. ret None)) w1
       = Some (Returned (None :: processEmailResult option), w')"
    by auto
  have q1: "quiet w w1"
    by (rule quietI[OF emitsOnly_await[OF queryEmitsOnly_email_upsert] up]) simp
  from andThen_Returned[OF k]
  obtain existing :: "(event \<times> jsstring option) option" and w2
    where ff: "await env (event_findFirst root) w1 = Some (Returned existing, w2)"
      and k2: "(case existing of
         None \<Rightarrow> ret None
       | Some (ev, modelName) \<Rightarrow>
           if modelName = Some (CURRENT_MODEL_NAME deps)
           then andThen (markProcessedByCurrentModel env deps (l_messageId l)) (\<lambda>_.
                  ret (Some DORMSPAM_PROCESSED_WITH_SAME_PROMPT))
           else andThen (await env (event_deleteMany root)) (\<lambda>_. ret None)) w2
       = Some (Returned (None :: processEmailResult option), w')"
    by blast
  have q2: "quiet w1 w2"
    by (rule quietI[OF emitsOnly_await[OF queryEmitsOnly_event_findFirst] ff])
  have q3: "quiet w2 w'"
  proof (cases existing)
    case None
    then show ?thesis using k2 by (simp add: ret_def)
  next
    case (Some found)
    obtain ev modelName where found: "found = (ev, modelName)" by (cases found)
    show ?thesis
    proof (cases "modelName = Some (CURRENT_MODEL_NAME deps)")
      case True
      then show ?thesis
        using k2 Some found
          andThen_ret_other[of "Some DORMSPAM_PROCESSED_WITH_SAME_PROMPT" None
            "markProcessedByCurrentModel env deps (l_messageId l)" w2 w']
        by simp
    next
      case False
      then have d: "andThen (await env (event_deleteMany root))
                      (\<lambda>_. ret (None :: processEmailResult option)) w2
                    = Some (Returned None, w')"
        using k2 Some found by simp
      have "emitsOnly ?P (andThen (await env (event_deleteMany root))
                            (\<lambda>_. ret (None :: processEmailResult option)))"
        by (intro emitsOnly_andThen emitsOnly_await emitsOnly_ret queryEmitsOnly_event_deleteMany)
           simp
      from quietI[OF this d] show ?thesis .
    qed
  qed
  from q1 q2 q3 show ?thesis by (blast intro: quiet_trans)
qed

lemma issue_frame [simp]:
  "trace (issue mid mn w) = trace w"
  "inflight (issue mid mn w) = inflight w @ [(mid, mn)]"
  "emails (issue mid mn w) = emails w"
  by (simp_all add: issue_def)

lemma success_path:
  assumes run: "processMail env host deps sb u parsed w = Some (Returned DORMSPAM_WITH_EVENT, w')"
  shows "\<exists>mid l found w1 w2 root w3 w4 result w5 events w6.
           p_messageId parsed = Some mid \<and> l_messageId l = mid \<and>
           w1 = register mid (nextDeferred w) (w\<lparr>nextDeferred := Suc (nextDeferred w)\<rparr>) \<and>
           await env (email_findUnique mid) w1 = Some (Returned found, w2) \<and>
           resolveRoot env parsed mid w2 = Some (Returned (Inr root), w3) \<and>
           storeAndInvalidate env deps sb u l root w3 = Some (Returned None, w4) \<and>
           await env (\<lambda>w. (Inr (extractFromEmail deps (l_subject l) (l_text l) (l_receivedAt l)), w)) w4
             = Some (Returned result, w5) \<and>
           forEvents env host deps (l_receivedAt l) root (l_text l) events w5 =
             Some (Returned (), w6) \<and>
           w' = resolve (nextDeferred w) (issue mid (CURRENT_MODEL_NAME deps) w6)"
proof -
  define d where "d = nextDeferred w"
  define rcv where "rcv = (case p_date parsed of None \<Rightarrow> clock host | Some t \<Rightarrow> t)"
  define w0 where "w0 = w\<lparr>nextDeferred := Suc d\<rparr>"
  define w1 where "w1 = (case p_messageId parsed of None \<Rightarrow> w0 | Some mid \<Rightarrow> register mid d w0)"
  from run obtain v where body: "tryBlock env host deps sb u parsed rcv d w0 =
                                   Some (Returned DORMSPAM_WITH_EVENT, v)"
    and fin: "w' = resolve d v"
    unfolding processMail_def tryFinally_def d_def rcv_def w0_def
    by (auto split: option.splits completion.splits)
  from body have rest: "checkAndProcess env host deps sb u parsed rcv w1 =
                          Some (Returned DORMSPAM_WITH_EVENT, v)"
    unfolding tryBlock_def andThen_def sync_def w1_def completed_def by simp
  from checkAndProcess_success[OF rest] obtain mid l
    where mid: "p_messageId parsed = Some mid" and l: "l_messageId l = mid"
      and c: "classifyAndResolve env host deps sb u parsed l w1 =
                Some (Returned DORMSPAM_WITH_EVENT, v)"
    by blast
  from classifyAndResolve_success[OF c] obtain found w2 root w3
    where a: "await env (email_findUnique mid) w1 = Some (Returned found, w2)"
      and r: "resolveRoot env parsed mid w2 = Some (Returned (Inr root), w3)"
      and s: "storeAndExtract env host deps sb u l root w3 = Some (Returned DORMSPAM_WITH_EVENT, v)"
    unfolding l by blast
  from storeAndExtract_success[OF s] obtain w4
    where si: "storeAndInvalidate env deps sb u l root w3 = Some (Returned None, w4)"
      and e: "extractAndMerge env host deps l root w4 = Some (Returned DORMSPAM_WITH_EVENT, v)"
    by blast
  from extractAndMerge_success[OF e] obtain result w5 events w6
    where x: "await env (\<lambda>w. (Inr (extractFromEmail deps (l_subject l) (l_text l) (l_receivedAt l)), w)) w4
             = Some (Returned result, w5)"
      and f: "forEvents env host deps (l_receivedAt l) root (l_text l) events w5 =
             Some (Returned (), w6)"
      and v: "v = issue mid (CURRENT_MODEL_NAME deps) w6"
    unfolding l by blast
  have w1: "w1 = register mid (nextDeferred w) (w\<lparr>nextDeferred := Suc (nextDeferred w)\<rparr>)"
    unfolding w1_def w0_def d_def using mid by simp
  show ?thesis
    using mid l w1 a r si x f fin[unfolded v d_def] by blast
qed

lemma keepsMessagesD:
  "keepsMessages m \<Longrightarrow> m w = Some (c, w') \<Longrightarrow> emails w' = emails w \<and> inflight w' = inflight w"
  by (simp add: keepsMessages_def)

lemma keepsMessages_ret: "keepsMessages (ret a)"
  by (simp add: keepsMessages_def ret_def)

lemma keepsMessages_throw: "keepsMessages (throw e)"
  by (simp add: keepsMessages_def throw_def)

lemma keepsMessages_andThen:
  assumes "keepsMessages m" "\<And>a. keepsMessages (k a)"
  shows "keepsMessages (andThen m k)"
  unfolding keepsMessages_def
proof (intro allI impI)
  fix w c w'
  assume run: "andThen m k w = Some (c, w')"
  then obtain c1 w1 where m1: "m w = Some (c1, w1)"
    by (auto simp: andThen_def split: option.splits)
  note f1 = keepsMessagesD[OF assms(1) m1]
  show "emails w' = emails w \<and> inflight w' = inflight w"
  proof (cases c1)
    case (Returned a)
    then have "k a w1 = Some (c, w')" using run m1 by (simp add: andThen_def)
    from keepsMessagesD[OF assms(2) this] f1 show ?thesis by simp
  next
    case (Thrown e)
    then show ?thesis using run m1 f1 by (auto simp: andThen_def)
  next
    case Suspended
    then show ?thesis using run m1 f1 by (auto simp: andThen_def)
  qed
qed

lemma keepsMessages_sync:
  assumes "queryKeepsMessages q"
  shows "keepsMessages (sync q)"
  unfolding keepsMessages_def
proof (intro allI impI)
  fix w c w'
  assume run: "sync q w = Some (c, w')"
  obtain r v where qv: "q w = (r, v)" by (cases "q w")
  from run qv have "w' = v"
    by (cases r) (simp_all add: sync_def completed_def)
  moreover from assms qv have "emails v = emails w \<and> inflight v = inflight w"
    unfolding queryKeepsMessages_def by (metis snd_conv)
  ultimately show "emails w' = emails w \<and> inflight w' = inflight w" by simp
qed

lemma keepsMessages_await:
  assumes "queryKeepsMessages q"
  shows "keepsMessages (await calm q)"
  unfolding keepsMessages_def
proof (intro allI impI)
  fix w c w'
  assume run: "await calm q w = Some (c, w')"
  obtain r v where qv: "q (w\<lparr>ticks := Suc (ticks w)\<rparr>) = (r, v)"
    by (cases "q (w\<lparr>ticks := Suc (ticks w)\<rparr>)")
  from run qv have "w' = v\<lparr>ticks := Suc (ticks v)\<rparr>"
    by (cases r) (simp_all add: await_calm completed_def)
  moreover from assms qv
  have "emails v = emails (w\<lparr>ticks := Suc (ticks w)\<rparr>) \<and>
        inflight v = inflight (w\<lparr>ticks := Suc (ticks w)\<rparr>)"
    unfolding queryKeepsMessages_def by (metis snd_conv)
  ultimately show "emails w' = emails w \<and> inflight w' = inflight w" by simp
qed

lemma queryKeepsMessages_pure [simp]: "queryKeepsMessages (\<lambda>w. (r w, w))"
  by (simp add: queryKeepsMessages_def)

lemma queryKeepsMessages_index:
  "(\<And>w. emails (f w) = emails w \<and> inflight (f w) = inflight w) \<Longrightarrow>
   queryKeepsMessages (\<lambda>w. (r w, f w))"
  by (simp add: queryKeepsMessages_def)

lemma queryKeepsMessages_queries [simp]:
  "queryKeepsMessages (email_findUnique mid)"
  "queryKeepsMessages (event_findUnique i)"
  "queryKeepsMessages (event_findFirst root)"
  "queryKeepsMessages (event_deleteMany root)"
  "queryKeepsMessages (event_update i d)"
  "queryKeepsMessages (event_create d)"
  by (simp_all add: queryKeepsMessages_def email_findUnique_def event_findUnique_def
      event_findFirst_def event_deleteMany_def event_update_def event_create_def emit_def)

lemma messages_index_ops [simp]:
  "emails (upsertEmbedding label v ids w) = emails w"
  "inflight (upsertEmbedding label v ids w) = inflight w"
  "emails (reattach title v i label m w) = emails w"
  "inflight (reattach title v i label m w) = inflight w"
  by (simp_all add: upsertEmbedding_def reattach_def setEventIds_def deleteEmbedding_def Let_def)

lemma keepsMessages_forEventIds:
  "keepsMessages (forEventIds calm host deps event rcv d label m ids)"
proof (induction ids)
  case Nil
  show ?case by (simp add: keepsMessages_ret)
next
  case (Cons eventId ids)
  show ?case
    unfolding forEventIds.simps
    by (intro keepsMessages_andThen keepsMessages_await)
       (auto intro!: keepsMessages_andThen keepsMessages_await keepsMessages_sync
          keepsMessages_ret keepsMessages_throw queryKeepsMessages_index Cons
          split: option.splits sum.splits merge_result.splits)
qed

lemma keepsMessages_forNeighbors:
  "keepsMessages (forNeighbors calm host deps event rcv d knn)"
proof (induction knn)
  case Nil
  show ?case by (simp add: keepsMessages_ret)
next
  case (Cons n knn)
  obtain label distance where n: "n = (label, distance)" by (cases n)
  show ?case
    unfolding n forNeighbors.simps
    by (intro keepsMessages_andThen keepsMessages_sync)
       (auto intro!: keepsMessages_andThen keepsMessages_ret keepsMessages_forEventIds
          queryKeepsMessages_index Cons split: option.splits)
qed

lemma keepsMessages_processEvent:
  "keepsMessages (processEvent calm host deps rcv root txt event)"
  unfolding processEvent_def
  by (intro keepsMessages_andThen keepsMessages_await keepsMessages_sync
        keepsMessages_forNeighbors)
     (auto intro!: keepsMessages_andThen keepsMessages_await keepsMessages_sync keepsMessages_ret
        queryKeepsMessages_index split: option.splits)

lemma keepsMessages_forEvents:
  "keepsMessages (forEvents calm host deps rcv root txt found)"
  by (induction found)
     (auto intro!: keepsMessages_andThen keepsMessages_ret keepsMessages_processEvent)

lemma walkRoot_messages:
  assumes "walkRoot env root w = Some y"
  shows "env = calm \<longrightarrow> emails (snd y) = emails w \<and> inflight (snd y) = inflight w"
proof (rule walkRoot.raw_induct[where P = "\<lambda>env root w y.
         env = calm \<longrightarrow> emails (snd y) = emails w \<and> inflight (snd y) = inflight w", OF _ assms])
  fix walk env root w y
  assume IH: "\<And>env root w y. walk env root w = Some y \<Longrightarrow>
                env = calm \<longrightarrow> emails (snd y) = emails w \<and> inflight (snd y) = inflight w"
    and body: "(case e_inReplyToId root of
                  None \<Rightarrow> Some (Returned (Inr root), w)
                | Some parent \<Rightarrow>
                    (case awaitQuery env (email_findUnique parent) w of
                       (Inl e, w') \<Rightarrow> Some (Thrown e, w')
                     | (Inr None, w') \<Rightarrow> Some (Returned (Inl DORMSPAM_BUT_ROOT_NOT_IN_DB), w')
                     | (Inr (Some nextRoot), w') \<Rightarrow> walk env nextRoot w')) = Some y"
  show "env = calm \<longrightarrow> emails (snd y) = emails w \<and> inflight (snd y) = inflight w"
  proof
    assume calm: "env = calm"
    show "emails (snd y) = emails w \<and> inflight (snd y) = inflight w"
    proof (cases "e_inReplyToId root")
      case None
      then show ?thesis using body by auto
    next
      case (Some parent)
      have q: "awaitQuery calm (email_findUnique parent) w =
                 (Inr (findEmail parent w), w\<lparr>ticks := Suc (Suc (ticks w))\<rparr>)"
        by (simp add: awaitQuery_def email_findUnique_def)
      show ?thesis
      proof (cases "findEmail parent w")
        case None
        then show ?thesis using body Some q calm by auto
      next
        case (Some nextRoot)
        then have "walk calm nextRoot (w\<lparr>ticks := Suc (Suc (ticks w))\<rparr>) = Some y"
          using body \<open>e_inReplyToId root = Some parent\<close> q calm by simp
        from IH[OF this] show ?thesis by simp
      qed
    qed
  qed
qed

lemma keepsMessages_walkRoot: "keepsMessages (walkRoot calm root)"
  unfolding keepsMessages_def using walkRoot_messages by fastforce

lemma keepsMessages_awaitParent: "keepsMessages (awaitParent calm parent)"
  unfolding keepsMessages_def awaitParent_def awaitDeferred_def
  by (auto simp: emit_def split: option.splits if_splits)

lemma keepsMessages_resolveRoot: "keepsMessages (resolveRoot calm parsed mid)"
  unfolding resolveRoot_def
  by (auto intro!: keepsMessages_andThen keepsMessages_await keepsMessages_ret
        keepsMessages_walkRoot keepsMessages_awaitParent split: option.splits sum.splits)

lemma find_marked:
  "find (\<lambda>e. e_messageId e = mid) xs = Some e \<Longrightarrow>
   find (\<lambda>e. e_messageId e = mid)
     (map (\<lambda>e. if e_messageId e = mid then e\<lparr>e_modelName := mn\<rparr> else e) xs) =
   Some (e\<lparr>e_modelName := mn\<rparr>)"
  by (induction xs) (auto split: if_splits)

lemma find_appended:
  "find P xs = None \<Longrightarrow> P x \<Longrightarrow> find P (xs @ [x]) = Some x"
  by (induction xs) (auto split: if_splits)

lemma email_upsert_status:
  assumes "email_upsert mid sb u addr nm subj html rcv mn irt w = (Inr (), w')"
  shows "map_option e_modelName (findEmail mid w') = Some mn \<and> inflight w' = inflight w"
proof (cases "findEmail mid w")
  case None
  then show ?thesis
    using assms find_appended[of "\<lambda>e. e_messageId e = mid" "emails w"]
    by (auto simp: email_upsert_def findEmail_def emit_def split: if_splits)
next
  case (Some e)
  then show ?thesis
    using assms find_marked[of mid "emails w" e mn]
    by (auto simp: email_upsert_def findEmail_def emit_def)
qed

lemma storeAndInvalidate_status:
  assumes "storeAndInvalidate calm deps sb u l root w = Some (Returned None, w')"
  shows "map_option e_modelName (findEmail (l_messageId l) w') =
           Some (CURRENT_MODEL_NAME deps @ js ''_PROCESSING'') \<and>
         inflight w' = inflight w"
proof -
  from andThen_Returned[OF assms[unfolded storeAndInvalidate_def]]
  obtain w1 where up: "await calm
       (email_upsert (l_messageId l) sb u (l_senderAddress l) (l_senderName l)
          (l_subject l) (l_html l) (l_receivedAt l)
          (CURRENT_MODEL_NAME deps @ js ''_PROCESSING'') (l_inReplyTo l)) w = Some (Returned (), w1)"
    and k: "andThen (await calm (event_findFirst root)) (\<lambda>existing.
       case existing of
         None \<Rightarrow> ret None
       | Some (ev, modelName) \<Rightarrow>
           if modelName = Some (CURRENT_MODEL_NAME deps)
           then andThen (markProcessedByCurrentModel calm deps (l_messageId l)) (\<lambda>_.
                  ret (Some DORMSPAM_PROCESSED_WITH_SAME_PROMPT))
           else andThen (await calm (event_deleteMany root)) (\<lambda>_. ret None)) w1
       = Some (Returned (None :: processEmailResult option), w')"
    by auto
  let ?up = "email_upsert (l_messageId l) sb u (l_senderAddress l) (l_senderName l)
          (l_subject l) (l_html l) (l_receivedAt l)
          (CURRENT_MODEL_NAME deps @ js ''_PROCESSING'') (l_inReplyTo l)"
  obtain r v where uv: "?up (w\<lparr>ticks := Suc (ticks w)\<rparr>) = (r, v)"
    by (cases "?up (w\<lparr>ticks := Suc (ticks w)\<rparr>)")
  from up uv have r: "r = Inr ()" and w1: "w1 = v\<lparr>ticks := Suc (ticks v)\<rparr>"
    by (cases r; simp add: await_calm completed_def)+
  from email_upsert_status[OF uv[unfolded r]]
  have s1: "map_option e_modelName (findEmail (l_messageId l) w1) =
              Some (CURRENT_MODEL_NAME deps @ js ''_PROCESSING'')" "inflight w1 = inflight w"
    unfolding w1 by simp_all
  from andThen_Returned[OF k]
  obtain existing :: "(event \<times> jsstring option) option" and w2
    where ff: "await calm (event_findFirst root) w1 = Some (Returned existing, w2)"
      and k2: "(case existing of
         None \<Rightarrow> ret None
       | Some (ev, modelName) \<Rightarrow>
           if modelName = Some (CURRENT_MODEL_NAME deps)
           then andThen (markProcessedByCurrentModel calm deps (l_messageId l)) (\<lambda>_.
                  ret (Some DORMSPAM_PROCESSED_WITH_SAME_PROMPT))
           else andThen (await calm (event_deleteMany root)) (\<lambda>_. ret None)) w2
       = Some (Returned (None :: processEmailResult option), w')"
    by blast
  from keepsMessagesD[OF keepsMessages_await ff]
  have s2: "emails w2 = emails w1" "inflight w2 = inflight w1" by simp_all
  have s3: "emails w' = emails w2 \<and> inflight w' = inflight w2"
  proof (cases existing)
    case None
    then show ?thesis using k2 by (simp add: ret_def)
  next
    case (Some found)
    obtain ev modelName where found: "found = (ev, modelName)" by (cases found)
    show ?thesis
    proof (cases "modelName = Some (CURRENT_MODEL_NAME deps)")
      case True
      then show ?thesis
        using k2 Some found
          andThen_ret_other[of "Some DORMSPAM_PROCESSED_WITH_SAME_PROMPT" None
            "markProcessedByCurrentModel calm deps (l_messageId l)" w2 w']
        by simp
    next
      case False
      then have d: "andThen (await calm (event_deleteMany root))
                      (\<lambda>_. ret (None :: processEmailResult option)) w2
                    = Some (Returned None, w')"
        using k2 Some found by simp
      have "keepsMessages (andThen (await calm (event_deleteMany root))
                            (\<lambda>_. ret (None :: processEmailResult option)))"
        by (intro keepsMessages_andThen keepsMessages_await keepsMessages_ret) simp
      from keepsMessagesD[OF this d] show ?thesis .
    qed
  qed
  have "findEmail (l_messageId l) w' = findEmail (l_messageId l) w1"
    using s2 s3 by (simp add: findEmail_def)
  then show ?thesis using s1 s2 s3 by simp
qed


text \<open>The announcement in the empty store: the invocation succeeds, the message is stored
  as \<open>M2_PROCESSING\<close>, and the update to \<open>M2\<close> is in flight.\<close>

lemma announced_run:
  "processMail calm host0 (deps0 (Admitted [party]) []) (js ''me'') 3 announcement world0 =
   Some (Returned DORMSPAM_WITH_EVENT, announcedEnd)"
  by (simp add: store_defs run_defs step_defs processEvent_def announcement_def someone_def
      world0_def stored_def deps0_def party_def classified announcedEnd_def)


subsection \<open>The messages that fail the first check\<close>

lemma senderless_run:
  "processMail calm host0 (deps0 x knn) (js ''me'') 7 senderless world0 =
   Some (Thrown TypeError, headlessEnd)"
  by (simp add: run_defs senderless_def announcement_def world0_def deps0_def headlessEnd_def)

text \<open>
  Claim C8, at a message whose list of sender addresses is empty: \<open>from.value[0]\<close> is
  \<open>undefined\<close>, the first check throws a TypeError instead of returning
  \<open>MALFORMED_EMAIL\<close>, no tombstone is written, and the uid is fetched again by the next
  run.
\<close>

theorem senderless_throws:
  "p_messageId senderless = Some (js ''a'') \<and> p_from senderless = Some [] \<and>
   p_html senderless = Some (js ''hi'') \<and> p_subject senderless = Some (js ''party'') \<and>
   processMail calm host0 (deps0 (Admitted []) []) (js ''me'') 7 senderless world0 =
     Some (Thrown TypeError, headlessEnd) \<and>
   ignoredEmails headlessEnd = [] \<and>
   uidsToFetch (deps0 (Admitted []) []) (js ''me'') [7] headlessEnd = [7]"
  using senderless_run[of "Admitted []" "[]"]
  by (simp add: senderless_def announcement_def headlessEnd_def world0_def
      uidsToFetch_def unseenUids_def seenUids_def ignoredUids_def processedUids_def
      fetchedEmails_def byUserAndRecent_def)

text \<open>
  The other messages the claim names: a message without identity, or with a sender,
  that misses a field, and a message whose identity conflicts with a stored one. When the
  invocation runs alone it returns \<open>MALFORMED_EMAIL\<close>, the ledger has the tombstone of
  the uid, added unless it was there, and a later run does not fetch the uid.
\<close>

lemma fold_min_le: "fold min us (a :: nat) \<le> a"
proof (induction us arbitrary: a)
  case Nil
  show ?case by simp
next
  case (Cons y us)
  have "fold min us (min y a) \<le> min y a" by (rule Cons.IH)
  also have "min y a \<le> a" by simp
  finally show ?case by simp
qed

lemma fold_min_mem: "x \<in> set us \<Longrightarrow> fold min us (a :: nat) \<le> x"
proof (induction us arbitrary: a)
  case Nil
  then show ?case by simp
next
  case (Cons y us)
  show ?case
  proof (cases "x = y")
    case True
    have "fold min us (min y a) \<le> min y a" by (rule fold_min_le)
    also have "min y a \<le> y" by simp
    finally show ?thesis using True by simp
  next
    case False
    then have "x \<in> set us" using Cons.prems by simp
    from Cons.IH[OF this] show ?thesis by simp
  qed
qed

lemma minUid_le: "u \<in> set allUids \<Longrightarrow> \<exists>m. minUid allUids = Some m \<and> m \<le> u"
  by (cases allUids) (auto simp: fold_min_le fold_min_mem)

lemma tombstoned_not_fetched:
  assumes "list_ex (\<lambda>r. i_scrapedBy r = user \<and> i_uid r = u) (ignoredEmails w)"
  shows "u \<notin> set (unseenUids deps user allUids w) \<and> u \<notin> set (uidsToFetch deps user allUids w)"
proof (cases "u \<in> set allUids")
  case False
  then show ?thesis by (simp add: unseenUids_def uidsToFetch_def)
next
  case True
  from minUid_le[OF this] obtain m where "minUid allUids = Some m" "m \<le> u" by blast
  then have "u \<in> set (ignoredUids user allUids w)"
    using assms by (force simp: ignoredUids_def byUserAndRecent_def list_ex_iff)
  then show ?thesis
    by (simp add: unseenUids_def uidsToFetch_def seenUids_def)
qed

lemma tombstone_lists: "list_ex (\<lambda>r. i_scrapedBy r = sb \<and> i_uid r = u) (tombstone sb u rcv rows)"
  by (simp add: tombstone_def)

lemma ignore_calm:
  "andThen (ignoreThisEmailForever calm sb u rcv) (\<lambda>_. ret x) w =
     Some (Returned x,
           w\<lparr>ignoredEmails := tombstone sb u rcv (ignoredEmails w),
             ticks := Suc (Suc (ticks w)), trace := trace w @ [IgnoredUpsert sb u]\<rparr>)"
  by (simp add: andThen_def ignoreThisEmailForever_def await_calm completed_def ret_def
      ignoredEmail_upsert_def emit_def tombstone_def)

lemma malformed_tombstoned:
  assumes bad: "\<not> passesChecks parsed \<or> conflicting parsed u w"
    and listed: "p_messageId parsed = None \<or> p_from parsed \<noteq> Some []"
  shows "\<exists>w'. processMail calm host deps sb u parsed w = Some (Returned MALFORMED_EMAIL, w') \<and>
           ignoredEmails w' =
             tombstone sb u (case p_date parsed of None \<Rightarrow> clock host | Some d \<Rightarrow> d)
               (ignoredEmails w) \<and>
           emails w' = emails w \<and>
           u \<notin> set (uidsToFetch deps sb allUids w')"
proof -
  define rcv where "rcv = (case p_date parsed of None \<Rightarrow> clock host | Some d \<Rightarrow> d)"
  define w1 where "w1 = (case p_messageId parsed of
                           None \<Rightarrow> w\<lparr>nextDeferred := Suc (nextDeferred w)\<rparr>
                         | Some mid \<Rightarrow> register mid (nextDeferred w)
                                         (w\<lparr>nextDeferred := Suc (nextDeferred w)\<rparr>))"
  have e1: "emails w1 = emails w" "ignoredEmails w1 = ignoredEmails w"
    unfolding w1_def register_def emit_def by (simp_all split: option.splits)
  have "\<exists>v. checkAndProcess calm host deps sb u parsed rcv w1 = Some (Returned MALFORMED_EMAIL, v) \<and>
             ignoredEmails v = tombstone sb u rcv (ignoredEmails w1) \<and> emails v = emails w1"
  proof (cases "passesChecks parsed")
    case False
    then have "checkAndProcess calm host deps sb u parsed rcv w1 =
                 andThen (ignoreThisEmailForever calm sb u rcv) (\<lambda>_. ret MALFORMED_EMAIL) w1"
      using listed unfolding checkAndProcess_def passesChecks_def
      by (auto split: option.splits list.splits)
    then show ?thesis by (simp add: ignore_calm)
  next
    case True
    then obtain mid sender more addr c html subj
      where p: "p_messageId parsed = Some mid" "p_from parsed = Some (sender # more)"
        "a_address sender = Some addr" "p_html parsed = Some (c # html)"
        "p_subject parsed = Some subj"
      unfolding passesChecks_def
      by (auto simp: neq_Nil_conv split: option.splits list.splits)
    from True bad p obtain e where e: "findEmail mid w = Some e" "e_uid e \<noteq> u"
      unfolding conflicting_def by (auto split: option.splits)
    have "findEmail mid w1 = Some e"
      using e findEmail_cong[OF e1(1)] by simp
    then have "checkAndProcess calm host deps sb u parsed rcv w1 =
            andThen (ignoreThisEmailForever calm sb u rcv) (\<lambda>_. ret MALFORMED_EMAIL)
              (w1\<lparr>ticks := Suc (Suc (ticks w1))\<rparr>)"
      using p e(2) unfolding checkAndProcess_def classifyAndResolve_def
      by (simp add: andThen_def[of "await calm q" for q] await_calm completed_def
          email_findUnique_def localsOf_def)
    then show ?thesis by (simp add: ignore_calm)
  qed
  then obtain v where v: "checkAndProcess calm host deps sb u parsed rcv w1 =
                            Some (Returned MALFORMED_EMAIL, v)"
    and iv: "ignoredEmails v = tombstone sb u rcv (ignoredEmails w)" "emails v = emails w"
    using e1 by auto
  have run: "processMail calm host deps sb u parsed w =
               Some (Returned MALFORMED_EMAIL, resolve (nextDeferred w) v)"
    unfolding processMail_def tryFinally_def tryBlock_def
    using v unfolding w1_def rcv_def
    by (simp add: andThen_def sync_def completed_def split: option.splits)
  have st: "ignoredEmails (resolve (nextDeferred w) v) = tombstone sb u rcv (ignoredEmails w)"
    "emails (resolve (nextDeferred w) v) = emails w"
    using iv by (simp_all add: resolve_def emit_def)
  have "list_ex (\<lambda>r. i_scrapedBy r = sb \<and> i_uid r = u)
          (ignoredEmails (resolve (nextDeferred w) v))"
    unfolding st by (rule tombstone_lists)
  from tombstoned_not_fetched[OF this] run st show ?thesis
    unfolding rcv_def by blast
qed

subsection \<open>The events an older model has left\<close>

lemma find_other_marked:
  "root \<noteq> mid \<Longrightarrow>
   find (\<lambda>e. e_messageId e = root)
     (map (\<lambda>e. if e_messageId e = mid then e\<lparr>e_modelName := mn\<rparr> else e) xs) =
   find (\<lambda>e. e_messageId e = root) xs"
  by (induction xs) auto

lemma find_other_appended:
  "\<not> P x \<Longrightarrow> find P (xs @ [x]) = find P xs"
  by (induction xs) auto

lemma email_upsert_other:
  assumes "root \<noteq> mid"
  shows "findEmail root (snd (email_upsert mid sb u addr nm subj html rcv mn irt w)) =
         findEmail root w"
  using assms find_other_marked[of root mid mn "emails w"]
    find_other_appended[of "\<lambda>e. e_messageId e = root" _ "emails w"]
  by (auto simp: email_upsert_def findEmail_def emit_def split: option.splits)

lemma email_upsert_succeeds:
  assumes "findEmail mid w \<noteq> None \<or>
           (case irt of None \<Rightarrow> True | Some parent \<Rightarrow> findEmail parent w \<noteq> None)"
  shows "fst (email_upsert mid sb u addr nm subj html rcv mn irt w) = Inr ()"
  using assms by (auto simp: email_upsert_def split: option.splits)

text \<open>
  Claim C4, amended. When the root of the thread has an event anchored at it and is not
  marked with the current model name, and the message can be stored, then lines 253 to
  295, run alone, delete every event anchored at the root and go on to the extraction,
  which starts in a store without these events. The index is as before: it lists the
  same event ids, those of the deleted events too.
\<close>

theorem stale_events_deleted:
  assumes anchored: "find (\<lambda>ev. d_fromEmailId ev = Some root) (events w) = Some ev"
    and older: "map_option e_modelName (findEmail root w) \<noteq> Some (CURRENT_MODEL_NAME deps)"
    and storable: "findEmail (l_messageId l) w \<noteq> None \<or>
                   (case l_inReplyTo l of None \<Rightarrow> True | Some parent \<Rightarrow> findEmail parent w \<noteq> None)"
  shows "\<exists>w'. storeAndInvalidate calm deps sb u l root w = Some (Returned None, w') \<and>
              storeAndExtract calm host deps sb u l root w =
                extractAndMerge calm host deps l root w' \<and>
              events w' = filter (\<lambda>ev. d_fromEmailId ev \<noteq> Some root) (events w) \<and>
              \<not> list_ex (\<lambda>ev. d_fromEmailId ev = Some root) (events w') \<and>
              embeddingDB w' = embeddingDB w \<and> metaHeap w' = metaHeap w \<and>
              (\<forall>i. indexed w' i = indexed w i)"
proof -
  let ?mid = "l_messageId l"
  let ?mn = "CURRENT_MODEL_NAME deps @ js ''_PROCESSING''"
  let ?up = "email_upsert ?mid sb u (l_senderAddress l) (l_senderName l)
               (l_subject l) (l_html l) (l_receivedAt l) ?mn (l_inReplyTo l)"
  let ?w0 = "w\<lparr>ticks := Suc (ticks w)\<rparr>"
  define w1 where "w1 = snd (?up ?w0)"
  have "findEmail ?mid ?w0 \<noteq> None \<or>
        (case l_inReplyTo l of None \<Rightarrow> True | Some parent \<Rightarrow> findEmail parent ?w0 \<noteq> None)"
    using storable by (simp split: option.splits)
  from email_upsert_succeeds[OF this]
  have up: "?up ?w0 = (Inr (), w1)"
    unfolding w1_def by (simp add: prod_eq_iff)
  have f1: "events w1 = events w" "embeddingDB w1 = embeddingDB w" "metaHeap w1 = metaHeap w"
    unfolding w1_def by (simp_all add: email_upsert_frame)
  have root: "d_fromEmailId ev = Some root"
    using anchored by (auto simp: find_Some_iff)
  have model: "map_option e_modelName (fromEmail ev w1) \<noteq> Some (CURRENT_MODEL_NAME deps)"
  proof (cases "root = ?mid")
    case True
    from email_upsert_status[OF up]
    have "map_option e_modelName (findEmail root w1) = Some ?mn" using True by simp
    then show ?thesis using root by (auto simp: fromEmail_def js_def)
  next
    case False
    then have "findEmail root w1 = findEmail root w"
      unfolding w1_def using email_upsert_other[of root ?mid] by simp
    then show ?thesis using older root by (simp add: fromEmail_def)
  qed
  define w' where
    "w' = w1\<lparr>events := filter (\<lambda>ev. d_fromEmailId ev \<noteq> Some root) (events w),
              ticks := ticks w1 + 5, trace := trace w1 @ [EventDeleteMany root]\<rparr>"
  define mn where "mn = map_option e_modelName (fromEmail ev w1)"
  have step: "storeAndInvalidate calm deps sb u l root w =
                (if mn = Some (CURRENT_MODEL_NAME deps)
                 then andThen (markProcessedByCurrentModel calm deps ?mid) (\<lambda>_.
                        ret (Some DORMSPAM_PROCESSED_WITH_SAME_PROMPT))
                 else andThen (await calm (event_deleteMany root)) (\<lambda>_. ret None))
                  (w1\<lparr>ticks := Suc (Suc (Suc (ticks w1)))\<rparr>)"
    unfolding mn_def storeAndInvalidate_def
    using up anchored f1
    by (simp add: andThen_def[of "await calm q" for q] await_calm completed_def
        event_findFirst_def)
  have run: "storeAndInvalidate calm deps sb u l root w = Some (Returned None, w')"
    unfolding step using model[folded mn_def] f1
    by (simp add: andThen_def await_calm completed_def event_deleteMany_def emit_def ret_def
        w'_def)
  have onward: "storeAndExtract calm host deps sb u l root w =
                extractAndMerge calm host deps l root w'"
    unfolding storeAndExtract_def using run by (simp add: andThen_def)
  have ev: "events w' = filter (\<lambda>ev. d_fromEmailId ev \<noteq> Some root) (events w)"
    and ix: "embeddingDB w' = embeddingDB w" "metaHeap w' = metaHeap w"
    using f1 by (simp_all add: w'_def)
  have gone: "\<not> list_ex (\<lambda>ev. d_fromEmailId ev = Some root) (events w')"
    unfolding ev by (simp add: list_ex_iff)
  have "\<forall>i. indexed w' i = indexed w i"
    using indexed_cong[OF ix] by simp
  with run onward ev gone ix show ?thesis by blast
qed

text \<open>The message \<open>a\<close> of the older model \<open>M1\<close> with its event 1: the event is deleted, and
  the index lists it as before.\<close>

theorem stale_events_deleted_witness:
  "find (\<lambda>ev. d_fromEmailId ev = Some (js ''a'')) (events stale) =
     Some (row 1 (newEventData (js ''a'') (js ''bcc to dorms'') party)) \<and>
   map_option e_modelName (findEmail (js ''a'') stale) = Some (js ''M1'') \<and>
   js ''M1'' \<noteq> CURRENT_MODEL_NAME (deps0 (Admitted []) []) \<and>
   findEmail (l_messageId announced) stale \<noteq> None \<and>
   storeAndInvalidate calm (deps0 (Admitted []) []) (js ''me'') 3 announced (js ''a'') stale =
     Some (Returned None, staleCleared) \<and>
   storeAndExtract calm host0 (deps0 (Admitted []) []) (js ''me'') 3 announced (js ''a'') stale =
     extractAndMerge calm host0 (deps0 (Admitted []) []) announced (js ''a'') staleCleared \<and>
   events staleCleared = [] \<and>
   embeddingDB staleCleared = embeddingDB stale \<and> metaHeap staleCleared = metaHeap stale \<and>
   indexed staleCleared 1"
proof -
  have a: "find (\<lambda>ev. d_fromEmailId ev = Some (js ''a'')) (events stale) =
             Some (row 1 (newEventData (js ''a'') (js ''bcc to dorms'') party))"
    by (simp add: stale_def diary_def world0_def row_def newEventData_def)
  have m: "map_option e_modelName (findEmail (js ''a'') stale) = Some (js ''M1'')"
    by (simp add: findEmail_def stale_def diary_def world0_def stored_def)
  have c: "js ''M1'' \<noteq> CURRENT_MODEL_NAME (deps0 (Admitted []) [])"
    by (simp add: deps0_def js_def)
  have s: "findEmail (l_messageId announced) stale \<noteq> None"
    by (simp add: findEmail_def announced_def stale_def diary_def world0_def stored_def)
  have i: "indexed stale 1"
    unfolding indexed_def
    by (intro exI[of _ "js ''party''"] exI[of _ "\<lparr>embeddings = [], metadata = 0\<rparr>"])
       (simp add: eventIdsOf_def stale_def diary_def world0_def)
  from stale_events_deleted[OF a, of "deps0 (Admitted []) []" announced "js ''me''" 3 host0]
    m c s
  obtain w' where
    "storeAndInvalidate calm (deps0 (Admitted []) []) (js ''me'') 3 announced (js ''a'') stale =
       Some (Returned None, w')"
    "storeAndExtract calm host0 (deps0 (Admitted []) []) (js ''me'') 3 announced (js ''a'') stale =
       extractAndMerge calm host0 (deps0 (Admitted []) []) announced (js ''a'') w'"
    "events w' = filter (\<lambda>ev. d_fromEmailId ev \<noteq> Some (js ''a'')) (events stale)"
    "embeddingDB w' = embeddingDB stale" "metaHeap w' = metaHeap stale"
    "\<forall>i. indexed w' i = indexed stale i"
    by auto
  moreover from this(1) stale_run[of "Admitted []" "[]"] have "w' = staleCleared" by simp
  ultimately show ?thesis
    using a m c s i by (simp add: staleCleared_def)
qed

text \<open>The claim as stated fails there: after the invocation the event 1 is not in the
  store, and the index lists it under the title of the party.\<close>

theorem stale_index_counterexample:
  "processMail calm host0 (deps0 RejectedByGpt3 []) (js ''me'') 3 announcement stale =
     Some (Returned DORMSPAM_BUT_NOT_EVENT_BY_GPT_3, staleEnd) \<and>
   map evt_id (events stale) = [1] \<and>
   map d_fromEmailId (events stale) = [Some (js ''a'')] \<and>
   map e_modelName (emails stale) = [js ''M1''] \<and>
   CURRENT_MODEL_NAME (deps0 RejectedByGpt3 []) = js ''M2'' \<and>
   findEvent 1 staleEnd = None \<and>
   getEmbedding (js ''party'') staleEnd = Some \<lparr>embeddings = [], metadata = 0\<rparr> \<and>
   eventIdsOf 0 staleEnd = [1] \<and>
   indexed staleEnd 1"
proof -
  have ix: "getEmbedding (js ''party'') staleEnd = Some \<lparr>embeddings = [], metadata = 0\<rparr>"
    "eventIdsOf 0 staleEnd = [1]"
    by (simp_all add: getEmbedding_def eventIdsOf_def staleEnd_def stale_def diary_def world0_def)
  then have "indexed staleEnd 1"
    unfolding indexed_def getEmbedding_def
    by (intro exI[of _ "js ''party''"] exI[of _ "\<lparr>embeddings = [], metadata = 0\<rparr>"]) simp
  then show ?thesis
    using ix stale_processMail_run[of "[]"]
    by (simp add: findEvent_def staleEnd_def stale_def diary_def world0_def stored_def deps0_def
        row_def newEventData_def js_def)
qed

subsection \<open>A reply and the handle of its parent\<close>

lemma entry_yield: "registeredAs env parent d \<Longrightarrow> entry parent d (yield env w)"
  by (simp add: registeredAs_def entry_def yield_def)

lemma entry_awaitQuery_findUnique:
  "registeredAs env parent d \<Longrightarrow> entry parent d (snd (awaitQuery env (email_findUnique p) w))"
  by (simp add: awaitQuery_def email_findUnique_def entry_yield)

lemma walkRoot_entry:
  assumes "walkRoot env root w = Some y" "registeredAs env parent d" "entry parent d w"
  shows "entry parent d (snd y)"
proof -
  have "registeredAs env parent d \<longrightarrow> entry parent d w \<longrightarrow> entry parent d (snd y)"
  proof (rule walkRoot.raw_induct[where P = "\<lambda>env root w y.
           registeredAs env parent d \<longrightarrow> entry parent d w \<longrightarrow> entry parent d (snd y)",
           OF _ assms(1)])
    fix walk env root w y
    assume IH: "\<And>env root w y. walk env root w = Some y \<Longrightarrow>
                  registeredAs env parent d \<longrightarrow> entry parent d w \<longrightarrow> entry parent d (snd y)"
      and body: "(case e_inReplyToId root of
                    None \<Rightarrow> Some (Returned (Inr root), w)
                  | Some parent \<Rightarrow>
                      (case awaitQuery env (email_findUnique parent) w of
                         (Inl e, w') \<Rightarrow> Some (Thrown e, w')
                       | (Inr None, w') \<Rightarrow> Some (Returned (Inl DORMSPAM_BUT_ROOT_NOT_IN_DB), w')
                       | (Inr (Some nextRoot), w') \<Rightarrow> walk env nextRoot w')) = Some y"
    show "registeredAs env parent d \<longrightarrow> entry parent d w \<longrightarrow> entry parent d (snd y)"
    proof (intro impI)
      assume st: "registeredAs env parent d" and h: "entry parent d w"
      show "entry parent d (snd y)"
      proof (cases "e_inReplyToId root")
        case None
        then show ?thesis using body h by auto
      next
        case (Some p)
        have hq: "entry parent d (snd (awaitQuery env (email_findUnique p) w))"
          by (rule entry_awaitQuery_findUnique[OF st])
        show ?thesis
          using body Some hq IH st
          by (auto split: prod.splits sum.splits option.splits)
      qed
    qed
  qed
  then show ?thesis using assms by simp
qed

lemma andThen_run:
  assumes "andThen m k w = Some (c, w')"
  shows "\<exists>c1 w1. m w = Some (c1, w1) \<and>
           (case c1 of
              Returned a \<Rightarrow> k a w1 = Some (c, w')
            | Thrown e \<Rightarrow> c = Thrown e \<and> w' = w1
            | Suspended \<Rightarrow> c = Suspended \<and> w' = w1)"
proof -
  from assms obtain c1 w1 where m: "m w = Some (c1, w1)"
    by (auto simp: andThen_def split: option.splits)
  show ?thesis
    using assms m by (cases c1) (simp_all add: andThen_def)
qed

lemma awaitParent_resumed:
  assumes "awaitParent env parent w = Some (Returned x, w')" "entry parent d w"
  shows "trace w' = trace w @ [Awaited d] \<and> everResolved env d"
proof -
  from assms have res: "d \<in> resolved (yield env w)" and w': "w' = emit (Awaited d) (yield env w)"
    by (auto simp: awaitParent_def entry_def awaitDeferred_def split: if_splits)
  from res have "d \<in> resolved (interleave env (ticks w) w)"
    by (simp add: yield_def)
  then have "everResolved env d"
    unfolding everResolved_def by blast
  then show ?thesis using w' by (simp add: emit_def)
qed

lemma resolveRoot_resumed:
  assumes reply: "p_inReplyTo parsed = Some parent"
    and kept: "registeredAs env parent d"
    and run: "resolveRoot env parsed mid w = Some (Returned (Inr root), w')"
  shows "trace w' = trace w @ [Awaited d] \<and> everResolved env d"
proof -
  obtain r1 w1 where q: "awaitQuery env (email_findUnique parent) w = (r1, w1)"
    by (cases "awaitQuery env (email_findUnique parent) w")
  have h1: "entry parent d w1"
    using entry_awaitQuery_findUnique[OF kept, of parent w] q by simp
  have t1: "trace w1 = trace w"
    using awaitQuery_silent[of "email_findUnique parent" env w] q
    by (simp add: email_findUnique_def)
  have r1: "r1 = Inl Rejected \<or> r1 = Inr (findEmail parent (yield env w))"
    using q by (auto simp: awaitQuery_def email_findUnique_def split: if_splits)
  from run reply q obtain first where f: "r1 = Inr (Some first)"
    and rest: "andThen (walkRoot env first) (\<lambda>walked.
                  case walked of
                    Inl result \<Rightarrow> ret (Inl result)
                  | Inr root \<Rightarrow>
                      andThen (awaitParent env (e_messageId first)) (\<lambda>_.
                        ret (Inr (e_messageId root)))) w1 = Some (Returned (Inr root), w')"
    by (auto simp: resolveRoot_def andThen_def await_def ret_def completed_def
        split: sum.splits option.splits)
  have mid: "e_messageId first = parent"
    using r1 f findEmail_messageId by auto
  from rest obtain rt w2 where wr: "walkRoot env first w1 = Some (Returned (Inr rt), w2)"
    and ap: "andThen (awaitParent env parent) (\<lambda>_. ret (Inr (e_messageId rt))) w2
             = Some (Returned (Inr root), w')"
    unfolding mid
    by (auto simp: andThen_def ret_def split: sum.splits option.splits completion.splits)
  have h2: "entry parent d w2"
    using walkRoot_entry[OF wr kept h1] by simp
  have t2: "trace w2 = trace w1"
    using walkRoot_trace[OF wr] by simp
  from ap obtain x where "awaitParent env parent w2 = Some (Returned x, w')"
    by (auto simp: andThen_def ret_def split: option.splits completion.splits)
  from awaitParent_resumed[OF this h2] t1 t2 show ?thesis by simp
qed

lemma writesAfter_quiet: "list_all (\<lambda>x. \<not> recordWrite x) es \<Longrightarrow> writesAfter env d es"
  by (simp add: writesAfter_def)

lemma classifyAndResolve_ordered:
  assumes reply: "p_inReplyTo parsed = Some parent"
    and kept: "registeredAs env parent d"
    and run: "classifyAndResolve env host deps sb u parsed l w = Some (c, w')"
  shows "\<exists>es. trace w' = trace w @ es \<and> writesAfter env d es"
proof -
  let ?P = "\<lambda>x. \<not> recordWrite x"
  have ign: "\<And>x :: processEmailResult.
               emitsOnly ?P (andThen (ignoreThisEmailForever env sb u (l_receivedAt l)) (\<lambda>_. ret x))"
    by (intro emitsOnly_andThen emitsOnly_ignore emitsOnly_ret) (simp add: recordWrite_def)
  from andThen_run[OF run[unfolded classifyAndResolve_def]]
  obtain c1 w1 where a: "await env (email_findUnique (l_messageId l)) w = Some (c1, w1)"
    and k: "(case c1 of
               Returned found \<Rightarrow>
                 (if (case found of None \<Rightarrow> False | Some e \<Rightarrow> e_uid e \<noteq> u)
                  then andThen (ignoreThisEmailForever env sb u (l_receivedAt l)) (\<lambda>_. ret MALFORMED_EMAIL)
                  else if \<not> isDormspam (l_text l)
                  then andThen (ignoreThisEmailForever env sb u (l_receivedAt l)) (\<lambda>_. ret NOT_DORMSPAM)
                  else andThen (resolveRoot env parsed (l_messageId l))
                         (\<lambda>resolution. case resolution of
                              Inl result \<Rightarrow> ret result
                            | Inr rootMessageId \<Rightarrow>
                                storeAndExtract env host deps sb u l rootMessageId)) w1
                 = Some (c, w')
             | Thrown e \<Rightarrow> c = Thrown e \<and> w' = w1
             | Suspended \<Rightarrow> c = Suspended \<and> w' = w1)"
    by blast
  from emitsOnlyD[OF emitsOnly_await[OF queryEmitsOnly_email_findUnique] a, of "\<lambda>x. False"]
  have t1: "trace w1 = trace w"
    by (auto simp: list_all_iff)
  show ?thesis
  proof (cases c1)
    case (Returned found)
    show ?thesis
    proof (cases "(case found of None \<Rightarrow> False | Some e \<Rightarrow> e_uid e \<noteq> u) \<or> \<not> isDormspam (l_text l)")
      case True
      then obtain x :: processEmailResult
        where "andThen (ignoreThisEmailForever env sb u (l_receivedAt l)) (\<lambda>_. ret x) w1 = Some (c, w')"
        using k Returned by (auto split: if_splits)
      from emitsOnlyD[OF ign this] t1 show ?thesis
        by (auto intro: writesAfter_quiet)
    next
      case False
      then have go: "andThen (resolveRoot env parsed (l_messageId l))
                         (\<lambda>resolution. case resolution of
                              Inl result \<Rightarrow> ret result
                            | Inr rootMessageId \<Rightarrow>
                                storeAndExtract env host deps sb u l rootMessageId) w1
                       = Some (c, w')"
        using k Returned by simp
      from andThen_run[OF go]
      obtain c2 w2 where r: "resolveRoot env parsed (l_messageId l) w1 = Some (c2, w2)"
        and k2: "(case c2 of
                    Returned resolution \<Rightarrow>
                      (case resolution of
                         Inl result \<Rightarrow> ret result
                       | Inr rootMessageId \<Rightarrow>
                           storeAndExtract env host deps sb u l rootMessageId) w2 = Some (c, w')
                  | Thrown e \<Rightarrow> c = Thrown e \<and> w' = w2
                  | Suspended \<Rightarrow> c = Suspended \<and> w' = w2)"
        by blast
      have "emitsOnly ?P (resolveRoot env parsed (l_messageId l))"
        by (rule emitsOnly_resolveRoot) (simp add: recordWrite_def)
      from emitsOnlyD[OF this r] obtain es2
        where es2: "trace w2 = trace w1 @ es2" "list_all ?P es2" by blast
      show ?thesis
      proof (cases c2)
        case (Returned resolution)
        note c2 = this
        show ?thesis
        proof (cases resolution)
          case (Inl result)
          then have "w' = w2" using k2 c2 by (simp add: ret_def)
          then show ?thesis using es2 t1 by (auto intro: writesAfter_quiet)
        next
          case (Inr root)
          from resolveRoot_resumed[OF reply kept r[unfolded c2 Inr]]
          have aw: "trace w2 = trace w1 @ [Awaited d]" and res: "everResolved env d"
            by simp_all
          have se: "storeAndExtract env host deps sb u l root w2 = Some (c, w')"
            using k2 c2 Inr by simp
          have "emitsOnly (\<lambda>x. True) (storeAndExtract env host deps sb u l root)"
            by (rule emitsOnly_storeAndExtract) simp
          from emitsOnlyD[OF this se] obtain es3 where "trace w' = trace w2 @ es3" by blast
          then have "trace w' = trace w @ ([] @ Awaited d # es3)"
            using aw t1 by simp
          moreover have "writesAfter env d ([] @ Awaited d # es3)"
            unfolding writesAfter_def using res by (intro disjI2 exI[of _ "[]"] exI[of _ es3]) simp
          ultimately show ?thesis by blast
        qed
      next
        case (Thrown e)
        then show ?thesis using k2 es2 t1 by (auto intro: writesAfter_quiet)
      next
        case Suspended
        then show ?thesis using k2 es2 t1 by (auto intro: writesAfter_quiet)
      qed
    qed
  next
    case (Thrown e)
    then show ?thesis using k t1 by (auto intro: writesAfter_quiet)
  next
    case Suspended
    then show ?thesis using k t1 by (auto intro: writesAfter_quiet)
  qed
qed

lemma checkAndProcess_ordered:
  assumes reply: "p_inReplyTo parsed = Some parent"
    and kept: "registeredAs env parent d"
    and run: "checkAndProcess env host deps sb u parsed rcv w = Some (c, w')"
  shows "\<exists>es. trace w' = trace w @ es \<and> writesAfter env d es"
proof -
  let ?P = "\<lambda>x. \<not> recordWrite x"
  have ign: "emitsOnly ?P (andThen (ignoreThisEmailForever env sb u rcv) (\<lambda>_. ret MALFORMED_EMAIL))"
    by (intro emitsOnly_andThen emitsOnly_ignore emitsOnly_ret) (simp add: recordWrite_def)
  consider
      (ignored) "andThen (ignoreThisEmailForever env sb u rcv) (\<lambda>_. ret MALFORMED_EMAIL) w = Some (c, w')"
    | (thrown) "throw TypeError w = Some (c, w')"
    | (checked) l where "classifyAndResolve env host deps sb u parsed l w = Some (c, w')"
    using run unfolding checkAndProcess_def
    by (auto split: option.splits list.splits)
  then show ?thesis
  proof cases
    case ignored
    from emitsOnlyD[OF ign this] show ?thesis by (auto intro: writesAfter_quiet)
  next
    case thrown
    then show ?thesis by (auto simp: throw_def intro: writesAfter_quiet)
  next
    case checked
    then show ?thesis by (rule classifyAndResolve_ordered[OF reply kept])
  qed
qed


text \<open>The reply \<open>b\<close> to the stored message \<open>a\<close>. While the handle 9 of \<open>a\<close> stays
  unresolved the invocation is suspended and has only registered its own handle; when
  the handle is resolved, the reply is stored after the handle has been awaited.\<close>

lemma yield_releasing [simp]:
  "yield releasing w = w\<lparr>processingTasks := (processingTasks w)(js ''a'' \<mapsto> 9),
                         resolved := insert 9 (resolved w), ticks := Suc (ticks w)\<rparr>"
  by (simp add: yield_def releasing_def)

lemma rejects_releasing [simp]: "rejects releasing n = False"
  by (simp add: releasing_def)

lemma yield_overwriting [simp]:
  "yield overwriting w = w\<lparr>processingTasks := (processingTasks w)(js ''a'' \<mapsto> 11),
                           resolved := insert 11 (resolved w) - {9}, ticks := Suc (ticks w)\<rparr>"
  by (simp add: yield_def overwriting_def)

lemma rejects_overwriting [simp]: "rejects overwriting n = False"
  by (simp add: overwriting_def)

lemma reply_released_run:
  "processMail releasing host0 (deps0 (Admitted []) knn) (js ''me'') 7 reply waiting =
   Some (Returned DORMSPAM_WITH_EVENT, replyReleased)"
  by (simp add: store_defs run_defs reply_def waiting_def world0_def deps0_def someone_def
      stored_def classified walkRoot_top replyReleased_def replyStored_def)

lemma reply_overwritten_run:
  "processMail overwriting host0 (deps0 (Admitted []) knn) (js ''me'') 7 reply waiting =
   Some (Returned DORMSPAM_WITH_EVENT, replyOverwritten)"
  by (simp add: store_defs run_defs reply_def waiting_def world0_def deps0_def someone_def
      stored_def classified walkRoot_top replyOverwritten_def replyStored_def)

lemma registeredAs_stalling: "registeredAs stalling (js ''a'') 9"
  by (simp add: registeredAs_def stalling_def)

lemma unresolved_stalling: "\<not> everResolved stalling 9"
  by (simp add: everResolved_def stalling_def)

lemma registeredAs_releasing: "registeredAs releasing (js ''a'') 9"
  by (simp add: registeredAs_def releasing_def)



end
